theory Spec2Isabelle
  imports Main "HOL-Library.Log_Nat"
begin

section \<open>JavaScript values used by the client\<close>

text \<open>
  A JavaScript string is a sequence of UTF-16 code units. The code trims, slices and
  compares strings by code unit, so a string is modelled as the list of its code units,
  each a natural number. \<open>js\<close> embeds an ASCII literal of the source.
\<close>

type_synonym jsstring = "nat list"

definition js :: "string \<Rightarrow> jsstring" where
  "js s = map of_char s"

text \<open>Everything the modelled code can throw.\<close>

datatype error =
    Error string
  | SyntaxError
  | StorageError

text \<open>
  \<open>String.prototype.trim\<close> removes the ECMAScript WhiteSpace and LineTerminator code
  points from both ends: TAB, LF, VT, FF, CR, SP, NBSP, U+1680, U+2000..U+200A, U+2028,
  U+2029, U+202F, U+205F, U+3000 and U+FEFF.
\<close>

definition isWhiteSpace :: "nat \<Rightarrow> bool" where
  "isWhiteSpace c \<longleftrightarrow>
     c = 9 \<or> c = 10 \<or> c = 11 \<or> c = 12 \<or> c = 13 \<or> c = 32 \<or> c = 160 \<or> c = 5760 \<or>
     (8192 \<le> c \<and> c \<le> 8202) \<or> c = 8232 \<or> c = 8233 \<or> c = 8239 \<or> c = 8287 \<or>
     c = 12288 \<or> c = 65279"

definition trimStart :: "jsstring \<Rightarrow> jsstring" where
  "trimStart s = dropWhile isWhiteSpace s"

definition trim :: "jsstring \<Rightarrow> jsstring" where
  "trim s = rev (dropWhile isWhiteSpace (rev (dropWhile isWhiteSpace s)))"

text \<open>\<open>s.slice(i, j)\<close> for \<open>0 \<le> i \<le> j\<close>; out-of-range bounds are clipped, as in JavaScript.\<close>

definition slice :: "jsstring \<Rightarrow> nat \<Rightarrow> nat \<Rightarrow> jsstring" where
  "slice s i j = take (j - i) (drop i s)"

text \<open>\<open>s.includes(t)\<close>: \<open>t\<close> occurs in \<open>s\<close> as a contiguous run of code units.\<close>

fun String_includes :: "jsstring \<Rightarrow> jsstring \<Rightarrow> bool" where
  "String_includes [] t = (t = [])"
| "String_includes (c # s) t = (take (length t) (c # s) = t \<or> String_includes s t)"

text \<open>The character class \<open>[\da-fA-F]\<close> and the value of a hexadecimal digit.\<close>

definition isHexDigit :: "nat \<Rightarrow> bool" where
  "isHexDigit c \<longleftrightarrow> (48 \<le> c \<and> c \<le> 57) \<or> (97 \<le> c \<and> c \<le> 102) \<or> (65 \<le> c \<and> c \<le> 70)"

definition hexDigitValue :: "nat \<Rightarrow> int" where
  "hexDigitValue c =
     (if 48 \<le> c \<and> c \<le> 57 then int c - 48
      else if 97 \<le> c \<and> c \<le> 102 then int c - 87
      else int c - 55)"

text \<open>
  \<open>Number.parseInt(value, 16)\<close>: leading white space is skipped, one sign is read, a
  \<open>0x\<close> or \<open>0X\<close> prefix is dropped, and the longest run of hexadecimal digits is
  converted; an empty run gives \<open>NaN\<close>, here \<open>None\<close>. The result is the exact
  integer, which is what the double holds for runs of up to 13 digits.
\<close>

definition hexValue :: "jsstring \<Rightarrow> int" where
  "hexValue ds = foldl (\<lambda>acc d. 16 * acc + hexDigitValue d) 0 ds"

definition Number_parseInt16 :: "jsstring \<Rightarrow> int option" where
  "Number_parseInt16 value =
     (let s0 = trimStart value;
          negative = (s0 \<noteq> [] \<and> hd s0 = 45);
          s1 = (if s0 \<noteq> [] \<and> (hd s0 = 43 \<or> hd s0 = 45) then tl s0 else s0);
          s2 = (if take 2 s1 = [48, 120] \<or> take 2 s1 = [48, 88] then drop 2 s1 else s1);
          z = takeWhile isHexDigit s2
      in if z = [] then None
         else Some (if negative then - hexValue z else hexValue z))"

text \<open>
  Template-literal conversion of an integral number: its decimal digits, with a minus
  sign when negative.
\<close>

fun decimalDigits :: "nat \<Rightarrow> jsstring" where
  "decimalDigits n = (if n < 10 then [48 + n] else decimalDigits (n div 10) @ [48 + n mod 10])"

declare decimalDigits.simps [simp del]

definition Number_toString :: "int \<Rightarrow> jsstring" where
  "Number_toString i = (if i < 0 then 45 # decimalDigits (nat (- i)) else decimalDigits (nat i))"

subsection \<open>Double-precision arithmetic\<close>

text \<open>
  JavaScript numbers are IEEE 754 binary64 values. A finite double is a rational, and
  \<open>+\<close>, \<open>-\<close> and \<open>*\<close> return the exact result rounded to the nearest double, ties to the
  even significand. \<open>binary64_round\<close> is that rounding for results in the normal range
  (magnitude from \<open>2^-1022\<close> up to the overflow threshold), which holds for every value the
  palette code computes: they are 0 or lie between 0.2 and 255.
\<close>

definition pow2 :: "int \<Rightarrow> rat" where
  "pow2 e = (if 0 \<le> e then 2 ^ nat e else 1 / 2 ^ nat (- e))"

definition floor_log2 :: "rat \<Rightarrow> int" where
  "floor_log2 x =
     (let (p, q) = quotient_of \<bar>x\<bar>;
          d = bitlen p - bitlen q
      in if pow2 d \<le> \<bar>x\<bar> then d else d - 1)"

definition round_half_even :: "rat \<Rightarrow> int" where
  "round_half_even x =
     (let f = \<lfloor>x\<rfloor>; d = x - of_int f
      in if d < 1 / 2 then f
         else if 1 / 2 < d then f + 1
         else if even f then f else f + 1)"

definition binary64_round :: "rat \<Rightarrow> rat" where
  "binary64_round x =
     (if x = 0 then 0
      else let ulp = pow2 (floor_log2 x - 52)
           in of_int (round_half_even (x / ulp)) * ulp)"

definition fl_add :: "rat \<Rightarrow> rat \<Rightarrow> rat" where
  "fl_add a b = binary64_round (a + b)"

definition fl_sub :: "rat \<Rightarrow> rat \<Rightarrow> rat" where
  "fl_sub a b = binary64_round (a - b)"

definition fl_mul :: "rat \<Rightarrow> rat \<Rightarrow> rat" where
  "fl_mul a b = binary64_round (a * b)"

text \<open>\<open>Math.round\<close>: the nearest integer, a tie going towards \<open>+\<infinity>\<close>.\<close>

definition Math_round :: "rat \<Rightarrow> int" where
  "Math_round x = \<lfloor>x + 1 / 2\<rfloor>"

text \<open>The numeric literals \<open>0\<close>, \<open>0.2\<close> and \<open>0.4\<close> of the source, as the doubles they denote.\<close>

definition lit_0 :: rat where
  "lit_0 = binary64_round 0"

definition lit_0_2 :: rat where
  "lit_0_2 = binary64_round (2 / 10)"

definition lit_0_4 :: rat where
  "lit_0_4 = binary64_round (4 / 10)"

section \<open>Palette token generation (lib/appearance.ts)\<close>

record PaletteSeedHexColors =
  background_seed_hex :: jsstring
  text_seed_hex :: jsstring
  primary_seed_hex :: jsstring
  secondary_seed_hex :: jsstring
  green_seed_hex :: jsstring
  red_seed_hex :: jsstring
  yellow_seed_hex :: jsstring
  blue_seed_hex :: jsstring
  magenta_seed_hex :: jsstring
  cyan_seed_hex :: jsstring

text \<open>The token \<open>text\<close> of the source is the field \<open>text'\<close>.\<close>

record PaletteRgbTokens =
  background :: jsstring
  text' :: jsstring
  primary_100 :: jsstring
  primary_80 :: jsstring
  primary_60 :: jsstring
  secondary_100 :: jsstring
  secondary_80 :: jsstring
  secondary_60 :: jsstring
  black :: jsstring
  white :: jsstring
  green_100 :: jsstring
  green_80 :: jsstring
  green_60 :: jsstring
  red_100 :: jsstring
  red_80 :: jsstring
  red_60 :: jsstring
  yellow_100 :: jsstring
  yellow_80 :: jsstring
  yellow_60 :: jsstring
  blue_100 :: jsstring
  blue_80 :: jsstring
  blue_60 :: jsstring
  magenta_100 :: jsstring
  magenta_80 :: jsstring
  magenta_60 :: jsstring
  cyan_100 :: jsstring
  cyan_80 :: jsstring
  cyan_60 :: jsstring

text \<open>\<open>/^#[\da-fA-F]{6}$/.test(value.trim())\<close>\<close>

definition isValidHexColor :: "jsstring \<Rightarrow> bool" where
  "isValidHexColor value =
     (let t = trim value
      in length t = 7 \<and> hd t = 35 \<and> list_all isHexDigit (tl t))"

definition parseHexChannel :: "jsstring \<Rightarrow> error + int" where
  "parseHexChannel value =
     (case Number_parseInt16 value of
        None \<Rightarrow> Inl (Error ''Invalid hex color channel'')
      | Some channel \<Rightarrow> Inr channel)"

definition parseHexToRgbChannels :: "jsstring \<Rightarrow> error + int \<times> int \<times> int" where
  "parseHexToRgbChannels hex =
     (let normalized = trim hex
      in if \<not> isValidHexColor normalized then Inl (Error ''Color must use 6-digit hex format.'')
         else case parseHexChannel (slice normalized 1 3) of
                Inl e \<Rightarrow> Inl e
              | Inr r \<Rightarrow>
                 (case parseHexChannel (slice normalized 3 5) of
                    Inl e \<Rightarrow> Inl e
                  | Inr g \<Rightarrow>
                     (case parseHexChannel (slice normalized 5 7) of
                        Inl e \<Rightarrow> Inl e
                      | Inr b \<Rightarrow> Inr (r, g, b))))"

definition lightenChannel :: "int \<Rightarrow> rat \<Rightarrow> int" where
  "lightenChannel channel mixWithWhite =
     (let mixed = fl_add (of_int channel) (fl_mul (fl_sub 255 (of_int channel)) mixWithWhite)
      in Math_round (max 0 (min 255 mixed)))"

definition toRgbTriplet :: "int \<times> int \<times> int \<Rightarrow> jsstring" where
  "toRgbTriplet channels =
     (case channels of (c0, c1, c2) \<Rightarrow>
        Number_toString c0 @ js '', '' @ Number_toString c1 @ js '', '' @ Number_toString c2)"

definition shadeHexColor :: "jsstring \<Rightarrow> rat \<Rightarrow> error + jsstring" where
  "shadeHexColor hex mixWithWhite =
     (case parseHexToRgbChannels hex of
        Inl e \<Rightarrow> Inl e
      | Inr (red, green, blue) \<Rightarrow>
          Inr (toRgbTriplet
                (lightenChannel red mixWithWhite,
                 lightenChannel green mixWithWhite,
                 lightenChannel blue mixWithWhite)))"

text \<open>
  The three shades of one accent seed, in the order the object literal evaluates them;
  the first call that throws ends the evaluation.
\<close>

definition accentShades :: "jsstring \<Rightarrow> error + jsstring \<times> jsstring \<times> jsstring" where
  "accentShades hex =
     (case shadeHexColor hex lit_0 of
        Inl e \<Rightarrow> Inl e
      | Inr s100 \<Rightarrow>
         (case shadeHexColor hex lit_0_2 of
            Inl e \<Rightarrow> Inl e
          | Inr s80 \<Rightarrow>
             (case shadeHexColor hex lit_0_4 of
                Inl e \<Rightarrow> Inl e
              | Inr s60 \<Rightarrow> Inr (s100, s80, s60))))"

definition bindE :: "error + 'a \<Rightarrow> ('a \<Rightarrow> error + 'b) \<Rightarrow> error + 'b" where
  "bindE m f = (case m of Inl e \<Rightarrow> Inl e | Inr x \<Rightarrow> f x)"

definition generatePaletteTokensFromSeeds :: "PaletteSeedHexColors \<Rightarrow> error + PaletteRgbTokens" where
  "generatePaletteTokensFromSeeds seedColors =
     bindE (shadeHexColor (background_seed_hex seedColors) lit_0) (\<lambda>bg.
     bindE (shadeHexColor (text_seed_hex seedColors) lit_0) (\<lambda>tx.
     bindE (accentShades (primary_seed_hex seedColors)) (\<lambda>(p100, p80, p60).
     bindE (accentShades (secondary_seed_hex seedColors)) (\<lambda>(s100, s80, s60).
     bindE (accentShades (green_seed_hex seedColors)) (\<lambda>(g100, g80, g60).
     bindE (accentShades (red_seed_hex seedColors)) (\<lambda>(r100, r80, r60).
     bindE (accentShades (yellow_seed_hex seedColors)) (\<lambda>(y100, y80, y60).
     bindE (accentShades (blue_seed_hex seedColors)) (\<lambda>(b100, b80, b60).
     bindE (accentShades (magenta_seed_hex seedColors)) (\<lambda>(m100, m80, m60).
     bindE (accentShades (cyan_seed_hex seedColors)) (\<lambda>(c100, c80, c60).
       Inr \<lparr> background = bg, text' = tx,
             primary_100 = p100, primary_80 = p80, primary_60 = p60,
             secondary_100 = s100, secondary_80 = s80, secondary_60 = s60,
             black = tx, white = bg,
             green_100 = g100, green_80 = g80, green_60 = g60,
             red_100 = r100, red_80 = r80, red_60 = r60,
             yellow_100 = y100, yellow_80 = y80, yellow_60 = y60,
             blue_100 = b100, blue_80 = b80, blue_60 = b60,
             magenta_100 = m100, magenta_80 = m80, magenta_60 = m60,
             cyan_100 = c100, cyan_80 = c80, cyan_60 = c60 \<rparr>))))))))))"

subsection \<open>The shading rule as the specification words it\<close>

text \<open>
  One channel mixed linearly toward white by the exact fraction \<open>p\<close>, clamped to
  \<open>[0, 255]\<close> and rounded to the nearest integer. This follows the specification, in
  exact rational arithmetic; \<open>lightenChannel\<close> above is the source, in doubles.
\<close>

definition spec_mix_channel :: "rat \<Rightarrow> int \<Rightarrow> int" where
  "spec_mix_channel p c = \<lfloor>max 0 (min 255 (of_int c + (255 - of_int c) * p)) + 1 / 2\<rfloor>"

text \<open>All ten seeds match the pattern \<open>#rrggbb\<close> after trimming.\<close>

definition allSeedsValid :: "PaletteSeedHexColors \<Rightarrow> bool" where
  "allSeedsValid seedColors \<longleftrightarrow>
     isValidHexColor (background_seed_hex seedColors) \<and>
     isValidHexColor (text_seed_hex seedColors) \<and>
     isValidHexColor (primary_seed_hex seedColors) \<and>
     isValidHexColor (secondary_seed_hex seedColors) \<and>
     isValidHexColor (green_seed_hex seedColors) \<and>
     isValidHexColor (red_seed_hex seedColors) \<and>
     isValidHexColor (yellow_seed_hex seedColors) \<and>
     isValidHexColor (blue_seed_hex seedColors) \<and>
     isValidHexColor (magenta_seed_hex seedColors) \<and>
     isValidHexColor (cyan_seed_hex seedColors)"

text \<open>
  The channels of a seed as the specification reads the notation \<open>#rrggbb\<close>: the value
  of a hexadecimal digit of either case, by the table; a channel is sixteen times its
  first digit plus its second; white space may surround the seed.
\<close>

definition spec_hex_digit :: "nat \<Rightarrow> int option" where
  "spec_hex_digit c =
     map_of [(48, 0), (49, 1), (50, 2), (51, 3), (52, 4), (53, 5), (54, 6), (55, 7), (56, 8),
             (57, 9), (97, 10), (98, 11), (99, 12), (100, 13), (101, 14), (102, 15),
             (65, 10), (66, 11), (67, 12), (68, 13), (69, 14), (70, 15)] c"

definition spec_channel :: "nat \<Rightarrow> nat \<Rightarrow> int option" where
  "spec_channel d1 d0 =
     (case (spec_hex_digit d1, spec_hex_digit d0) of
        (Some x, Some y) \<Rightarrow> Some (16 * x + y)
      | _ \<Rightarrow> None)"

definition spec_seed_channels :: "jsstring \<Rightarrow> (int \<times> int \<times> int) option" where
  "spec_seed_channels hex =
     (case dropWhile isWhiteSpace hex of
        h # r1 # r0 # g1 # g0 # b1 # b0 # rest \<Rightarrow>
          if h = 35 \<and> list_all isWhiteSpace rest
          then (case (spec_channel r1 r0, spec_channel g1 g0, spec_channel b1 b0) of
                  (Some r, Some g, Some b) \<Rightarrow> Some (r, g, b)
                | _ \<Rightarrow> None)
          else None
      | _ \<Rightarrow> None)"

text \<open>
  A token as the specification writes it: the decimal numerals of the three channels,
  each of at most three digits, separated by a comma and a space.
\<close>

definition spec_decimal :: "int \<Rightarrow> jsstring" where
  "spec_decimal c =
     (let n = nat c
      in if n < 10 then [48 + n]
         else if n < 100 then [48 + n div 10, 48 + n mod 10]
         else [48 + n div 100, 48 + n div 10 mod 10, 48 + n mod 10])"

definition spec_triplet :: "int \<times> int \<times> int \<Rightarrow> jsstring" where
  "spec_triplet channels =
     (case channels of (r, g, b) \<Rightarrow>
        spec_decimal r @ [44, 32] @ spec_decimal g @ [44, 32] @ spec_decimal b)"

text \<open>
  A token is the unmixed triplet of a seed; and the three tokens of an accent seed are
  its 0%, 20% and 40% mixes, the lighter two channel-wise no darker than the seed.
\<close>

definition spec_unmixed :: "jsstring \<Rightarrow> jsstring \<Rightarrow> bool" where
  "spec_unmixed hex tok =
     (case spec_seed_channels hex of
        None \<Rightarrow> False
      | Some (r, g, b) \<Rightarrow> tok = spec_triplet (r, g, b))"

definition spec_accent_shades :: "jsstring \<Rightarrow> jsstring \<Rightarrow> jsstring \<Rightarrow> jsstring \<Rightarrow> bool" where
  "spec_accent_shades hex s100 s80 s60 =
     (case spec_seed_channels hex of
        None \<Rightarrow> False
      | Some (r, g, b) \<Rightarrow>
          s100 = spec_triplet (r, g, b) \<and>
          s80 = spec_triplet
                  (spec_mix_channel (1 / 5) r, spec_mix_channel (1 / 5) g, spec_mix_channel (1 / 5) b) \<and>
          s60 = spec_triplet
                  (spec_mix_channel (2 / 5) r, spec_mix_channel (2 / 5) g, spec_mix_channel (2 / 5) b) \<and>
          r \<le> spec_mix_channel (1 / 5) r \<and> g \<le> spec_mix_channel (1 / 5) g \<and>
          b \<le> spec_mix_channel (1 / 5) b \<and>
          r \<le> spec_mix_channel (2 / 5) r \<and> g \<le> spec_mix_channel (2 / 5) g \<and>
          b \<le> spec_mix_channel (2 / 5) b)"

text \<open>
  The seeds of the unit test of the library, the same with one seed cut short, and the
  same with an upper-case background seed surrounded by spaces.
\<close>

definition exampleSeeds :: PaletteSeedHexColors where
  "exampleSeeds =
     \<lparr> background_seed_hex = js ''#a9b1d6'', text_seed_hex = js ''#1a1b26'',
       primary_seed_hex = js ''#9ece6a'', secondary_seed_hex = js ''#7aa2f7'',
       green_seed_hex = js ''#336699'', red_seed_hex = js ''#e65100'',
       yellow_seed_hex = js ''#f9a825'', blue_seed_hex = js ''#1e88e5'',
       magenta_seed_hex = js ''#8e24aa'', cyan_seed_hex = js ''#00838f'' \<rparr>"

definition brokenSeeds :: PaletteSeedHexColors where
  "brokenSeeds = exampleSeeds \<lparr> cyan_seed_hex := js ''#00838'' \<rparr>"

definition paddedSeeds :: PaletteSeedHexColors where
  "paddedSeeds = exampleSeeds \<lparr> background_seed_hex := js '' #FFFFFF '' \<rparr>"

section \<open>JSON text (\<open>JSON.parse\<close>, \<open>JSON.stringify\<close>)\<close>

text \<open>
  A parsed JSON value. An object keeps its members in source order; a later member with
  the same key overrides an earlier one when a property is read. The client only tests
  whether a value is a string, so a number keeps its lexeme.
\<close>

datatype json =
    JNull
  | JBool bool
  | JNumber jsstring
  | JString jsstring
  | JArray "json list"
  | JObject "(jsstring \<times> json) list"

text \<open>
  The code units the grammar names: quote 34, plus 43, comma 44, minus 45, dot 46,
  slash 47, the digits 48 to 57, colon 58, \<open>E\<close> 69, \<open>[\<close> 91, backslash 92, \<open>]\<close> 93,
  \<open>b\<close> 98, \<open>e\<close> 101, \<open>f\<close> 102, \<open>n\<close> 110, \<open>r\<close> 114, \<open>t\<close> 116, \<open>u\<close> 117, \<open>{\<close> 123,
  \<open>}\<close> 125. JSON white space is TAB, LF, CR and SP only.
\<close>

definition isJsonWhiteSpace :: "nat \<Rightarrow> bool" where
  "isJsonWhiteSpace c \<longleftrightarrow> c = 9 \<or> c = 10 \<or> c = 13 \<or> c = 32"

definition skipWS :: "jsstring \<Rightarrow> jsstring" where
  "skipWS s = dropWhile isJsonWhiteSpace s"

definition isDigit :: "nat \<Rightarrow> bool" where
  "isDigit c \<longleftrightarrow> 48 \<le> c \<and> c \<le> 57"

text \<open>The single-character escapes: quote, backslash, slash, \<open>b f n r t\<close>.\<close>

definition unescape :: "nat \<Rightarrow> nat option" where
  "unescape e =
     (if e = 34 then Some 34
      else if e = 92 then Some 92
      else if e = 47 then Some 47
      else if e = 98 then Some 8
      else if e = 102 then Some 12
      else if e = 110 then Some 10
      else if e = 114 then Some 13
      else if e = 116 then Some 9
      else None)"

text \<open>
  The characters of a string literal after its opening quote, up to and including the
  closing quote: the decoded code units and the text that follows. Control characters
  below U+0020 must be escaped; a \<open>u\<close> escape takes exactly four hexadecimal digits.
\<close>

fun parse_chars :: "jsstring \<Rightarrow> (jsstring \<times> jsstring) option" where
  "parse_chars [] = None"
| "parse_chars (c # s) =
     (if c = 34 then Some ([], s)
      else if c = 92 then
        (case s of
           [] \<Rightarrow> None
         | e # s' \<Rightarrow>
            if e = 117 then
              (if 4 \<le> length s' \<and> list_all isHexDigit (take 4 s')
               then map_option (\<lambda>(cs, r). (nat (hexValue (take 4 s')) # cs, r))
                      (parse_chars (drop 4 s'))
               else None)
            else
              (case unescape e of
                 None \<Rightarrow> None
               | Some u \<Rightarrow> map_option (\<lambda>(cs, r). (u # cs, r)) (parse_chars s')))
      else if c < 32 then None
      else map_option (\<lambda>(cs, r). (c # cs, r)) (parse_chars s))"

text \<open>
  A number: an optional minus, \<open>0\<close> or a digit run without leading zero, an optional
  fraction and an optional exponent, each needing at least one digit.
\<close>

definition parse_fraction :: "jsstring \<Rightarrow> (jsstring \<times> jsstring) option" where
  "parse_fraction s =
     (if s \<noteq> [] \<and> hd s = 46 then
        (let ds = takeWhile isDigit (tl s)
         in if ds = [] then None else Some (46 # ds, dropWhile isDigit (tl s)))
      else Some ([], s))"

definition parse_exponent :: "jsstring \<Rightarrow> (jsstring \<times> jsstring) option" where
  "parse_exponent s =
     (if s \<noteq> [] \<and> (hd s = 101 \<or> hd s = 69) then
        (let s1 = tl s;
             sg = (if s1 \<noteq> [] \<and> (hd s1 = 43 \<or> hd s1 = 45) then [hd s1] else []);
             s2 = drop (length sg) s1;
             ds = takeWhile isDigit s2
         in if ds = [] then None else Some (hd s # sg @ ds, dropWhile isDigit s2))
      else Some ([], s))"

definition parse_number :: "jsstring \<Rightarrow> (jsstring \<times> jsstring) option" where
  "parse_number s =
     (let sg = (if s \<noteq> [] \<and> hd s = 45 then [45] else []);
          s1 = drop (length sg) s
      in if s1 = [] \<or> \<not> isDigit (hd s1) then None
         else
           let ip = (if hd s1 = 48 then [48] else takeWhile isDigit s1);
               s2 = drop (length ip) s1
           in case parse_fraction s2 of
                None \<Rightarrow> None
              | Some (fp, s3) \<Rightarrow>
                 (case parse_exponent s3 of
                    None \<Rightarrow> None
                  | Some (ep, s4) \<Rightarrow> Some (sg @ ip @ fp @ ep, s4)))"

text \<open>
  Values, array elements and object members, by recursive descent. \<open>parse_elements\<close>
  and \<open>parse_members\<close> start after \<open>[\<close>, \<open>{\<close> or a comma and read up to the closing
  bracket. The first argument is fuel: every call uses one unit, and of two nested calls
  at least one reads a code unit first, so twice the length of the text plus two, which
  is what \<open>JSON_parse\<close> passes, is never used up.
\<close>

fun parse_value :: "nat \<Rightarrow> jsstring \<Rightarrow> (json \<times> jsstring) option"
  and parse_elements :: "nat \<Rightarrow> jsstring \<Rightarrow> (json list \<times> jsstring) option"
  and parse_members :: "nat \<Rightarrow> jsstring \<Rightarrow> ((jsstring \<times> json) list \<times> jsstring) option"
where
  "parse_value 0 s = None"
| "parse_value (Suc n) s =
     (case skipWS s of
        [] \<Rightarrow> None
      | c # r \<Rightarrow>
         if c = 123 then
           (if skipWS r \<noteq> [] \<and> hd (skipWS r) = 125 then Some (JObject [], tl (skipWS r))
            else map_option (\<lambda>(ms, r1). (JObject ms, r1)) (parse_members n r))
         else if c = 91 then
           (if skipWS r \<noteq> [] \<and> hd (skipWS r) = 93 then Some (JArray [], tl (skipWS r))
            else map_option (\<lambda>(vs, r1). (JArray vs, r1)) (parse_elements n r))
         else if c = 34 then map_option (\<lambda>(cs, r1). (JString cs, r1)) (parse_chars r)
         else if c # take 3 r = js ''true'' then Some (JBool True, drop 3 r)
         else if c # take 4 r = js ''false'' then Some (JBool False, drop 4 r)
         else if c # take 3 r = js ''null'' then Some (JNull, drop 3 r)
         else map_option (\<lambda>(lexeme, r1). (JNumber lexeme, r1)) (parse_number (c # r)))"
| "parse_elements 0 s = None"
| "parse_elements (Suc n) s =
     (case parse_value n s of
        None \<Rightarrow> None
      | Some (v, r) \<Rightarrow>
         (case skipWS r of
            [] \<Rightarrow> None
          | c # r1 \<Rightarrow>
             if c = 44 then map_option (\<lambda>(vs, r2). (v # vs, r2)) (parse_elements n r1)
             else if c = 93 then Some ([v], r1)
             else None))"
| "parse_members 0 s = None"
| "parse_members (Suc n) s =
     (case skipWS s of
        [] \<Rightarrow> None
      | c # r \<Rightarrow>
         if c \<noteq> 34 then None
         else
           (case parse_chars r of
              None \<Rightarrow> None
            | Some (k, r1) \<Rightarrow>
               (case skipWS r1 of
                  [] \<Rightarrow> None
                | c1 # r2 \<Rightarrow>
                   if c1 \<noteq> 58 then None
                   else
                     (case parse_value n r2 of
                        None \<Rightarrow> None
                      | Some (v, r3) \<Rightarrow>
                         (case skipWS r3 of
                            [] \<Rightarrow> None
                          | c2 # r4 \<Rightarrow>
                             if c2 = 44 then
                               map_option (\<lambda>(ms, r5). ((k, v) # ms, r5)) (parse_members n r4)
                             else if c2 = 125 then Some ([(k, v)], r4)
                             else None)))))"

text \<open>
  \<open>JSON.parse(text)\<close>: one value, with nothing but white space after it; anything else
  throws a \<open>SyntaxError\<close>.
\<close>

definition JSON_parse :: "jsstring \<Rightarrow> error + json" where
  "JSON_parse text =
     (case parse_value (2 * length text + 2) text of
        None \<Rightarrow> Inl SyntaxError
      | Some (v, r) \<Rightarrow> if skipWS r = [] then Inr v else Inl SyntaxError)"

text \<open>
  \<open>QuoteJSONString\<close>: the quote, the backslash and the control characters are escaped,
  a surrogate that is not part of a pair is written as a \<open>u\<close> escape, and every other
  code unit stands for itself.
\<close>

definition hexDigitChar :: "nat \<Rightarrow> nat" where
  "hexDigitChar d = (if d < 10 then 48 + d else 87 + d)"

definition hex4 :: "nat \<Rightarrow> jsstring" where
  "hex4 c =
     [hexDigitChar (c div 4096 mod 16), hexDigitChar (c div 256 mod 16),
      hexDigitChar (c div 16 mod 16), hexDigitChar (c mod 16)]"

definition isHighSurrogate :: "nat \<Rightarrow> bool" where
  "isHighSurrogate c \<longleftrightarrow> 55296 \<le> c \<and> c \<le> 56319"

definition isLowSurrogate :: "nat \<Rightarrow> bool" where
  "isLowSurrogate c \<longleftrightarrow> 56320 \<le> c \<and> c \<le> 57343"

definition quoteUnit :: "nat \<Rightarrow> jsstring" where
  "quoteUnit c =
     (if c = 8 then [92, 98]
      else if c = 9 then [92, 116]
      else if c = 10 then [92, 110]
      else if c = 12 then [92, 102]
      else if c = 13 then [92, 114]
      else if c = 34 then [92, 34]
      else if c = 92 then [92, 92]
      else if c < 32 \<or> isHighSurrogate c \<or> isLowSurrogate c then [92, 117] @ hex4 c
      else [c])"

fun quoteChars :: "jsstring \<Rightarrow> jsstring" where
  "quoteChars [] = []"
| "quoteChars [c] = quoteUnit c"
| "quoteChars (c # d # s) =
     (if isHighSurrogate c \<and> isLowSurrogate d then c # d # quoteChars s
      else quoteUnit c @ quoteChars (d # s))"

definition QuoteJSONString :: "jsstring \<Rightarrow> jsstring" where
  "QuoteJSONString s = 34 # quoteChars s @ [34]"

section \<open>Stored appearance preferences (lib/appearance.ts)\<close>

record AppearancePreferences =
  mode :: jsstring
  palette :: jsstring

definition COLOR_PALETTES :: "jsstring list" where
  "COLOR_PALETTES = [js ''catppuccin'', js ''tokyo-night'', js ''everforest'']"

definition APPEARANCE_STORAGE_KEY :: jsstring where
  "APPEARANCE_STORAGE_KEY = js ''auth-template.appearance''"

definition DEFAULT_APPEARANCE_PREFERENCES :: AppearancePreferences where
  "DEFAULT_APPEARANCE_PREFERENCES = \<lparr> mode = js ''system'', palette = js ''tokyo-night'' \<rparr>"

text \<open>
  The values a palette name passes through: \<open>undefined\<close>, \<open>null\<close>, a string, or
  what reading an object literal gives for a name it inherits from \<open>Object.prototype\<close>
  (a function, the prototype object).
\<close>

datatype property = Undefined | Null | Str jsstring | Inherited

definition Object_prototype_names :: "jsstring list" where
  "Object_prototype_names =
     [js ''constructor'', js ''__proto__'', js ''hasOwnProperty'', js ''isPrototypeOf'',
      js ''propertyIsEnumerable'', js ''toLocaleString'', js ''toString'', js ''valueOf'',
      js ''__defineGetter__'', js ''__defineSetter__'', js ''__lookupGetter__'',
      js ''__lookupSetter__'']"

definition LEGACY_COLOR_PALETTE_MAP :: "jsstring \<Rightarrow> property" where
  "LEGACY_COLOR_PALETTE_MAP key =
     (if key = js ''default'' then Str (js ''tokyo-night'')
      else if key = js ''sunset'' then Str (js ''catppuccin'')
      else if key = js ''forest'' then Str (js ''everforest'')
      else if key \<in> set Object_prototype_names then Inherited
      else Undefined)"

text \<open>
  \<open>storedValue.mode\<close> and \<open>storedValue.palette\<close> on a parsed value: the last member of
  an object with that key; arrays have neither property. \<open>None\<close> is \<open>undefined\<close>.
\<close>

fun getProperty :: "json \<Rightarrow> jsstring \<Rightarrow> json option" where
  "getProperty (JObject members) key = map_of (rev members) key"
| "getProperty v key = None"

fun isRecord :: "json \<Rightarrow> bool" where
  "isRecord (JObject members) = True"
| "isRecord (JArray elements) = True"
| "isRecord v = False"

definition isThemeMode :: "json option \<Rightarrow> bool" where
  "isThemeMode v \<longleftrightarrow>
     v = Some (JString (js ''system'')) \<or> v = Some (JString (js ''light'')) \<or>
     v = Some (JString (js ''dark''))"

definition isColorPalette :: "property \<Rightarrow> bool" where
  "isColorPalette v = (case v of Str s \<Rightarrow> s \<in> set COLOR_PALETTES | _ \<Rightarrow> False)"

definition parseStoredPreferences :: "json \<Rightarrow> AppearancePreferences" where
  "parseStoredPreferences storedValue =
     (if \<not> isRecord storedValue then DEFAULT_APPEARANCE_PREFERENCES
      else
        let storedPalette =
              (case getProperty storedValue (js ''palette'') of
                 Some (JString s) \<Rightarrow> Some s
               | _ \<Rightarrow> None);
            normalizedPalette =
              (case storedPalette of
                 None \<Rightarrow> Null
               | Some s \<Rightarrow>
                  if s = [] then Null
                  else (case LEGACY_COLOR_PALETTE_MAP s of
                          Undefined \<Rightarrow> Str s
                        | Null \<Rightarrow> Str s
                        | found \<Rightarrow> found));
            storedMode = getProperty storedValue (js ''mode'')
        in \<lparr> mode =
               (if isThemeMode storedMode
                then (case storedMode of
                        Some (JString m) \<Rightarrow> m
                      | _ \<Rightarrow> mode DEFAULT_APPEARANCE_PREFERENCES)
                else mode DEFAULT_APPEARANCE_PREFERENCES),
             palette =
               (if isColorPalette normalizedPalette
                then (case normalizedPalette of
                        Str p \<Rightarrow> p
                      | _ \<Rightarrow> palette DEFAULT_APPEARANCE_PREFERENCES)
                else palette DEFAULT_APPEARANCE_PREFERENCES) \<rparr>)"

text \<open>
  The storage the helpers are given: the items of a Web Storage area, and when its two
  methods throw (blocked storage, private mode, quota). \<open>getItem\<close> gives \<open>null\<close>,
  here \<open>None\<close>, for a missing key.
\<close>

record AppearanceStorage =
  items :: "jsstring \<rightharpoonup> jsstring"
  getItem_throws :: bool
  setItem_throws :: "jsstring \<Rightarrow> jsstring \<Rightarrow> bool"

definition getItem :: "AppearanceStorage \<Rightarrow> jsstring \<Rightarrow> error + jsstring option" where
  "getItem storage key = (if getItem_throws storage then Inl StorageError else Inr (items storage key))"

definition setItem :: "AppearanceStorage \<Rightarrow> jsstring \<Rightarrow> jsstring \<Rightarrow> error + AppearanceStorage" where
  "setItem storage key v =
     (if setItem_throws storage key v then Inl StorageError
      else Inr (storage \<lparr> items := (items storage)(key \<mapsto> v) \<rparr>))"

text \<open>The body of the \<open>try\<close> block of \<open>loadAppearancePreferences\<close>, and the function.\<close>

definition loadAppearancePreferences_try :: "AppearanceStorage \<Rightarrow> error + AppearancePreferences" where
  "loadAppearancePreferences_try storage =
     (case getItem storage APPEARANCE_STORAGE_KEY of
        Inl e \<Rightarrow> Inl e
      | Inr rawPreferences \<Rightarrow>
         (case rawPreferences of
            None \<Rightarrow> Inr DEFAULT_APPEARANCE_PREFERENCES
          | Some raw \<Rightarrow>
             if raw = [] then Inr DEFAULT_APPEARANCE_PREFERENCES
             else (case JSON_parse raw of
                     Inl e \<Rightarrow> Inl e
                   | Inr parsedPreferences \<Rightarrow> Inr (parseStoredPreferences parsedPreferences))))"

definition loadAppearancePreferences ::
  "AppearanceStorage option \<Rightarrow> error + AppearancePreferences" where
  "loadAppearancePreferences storage =
     (case storage of
        None \<Rightarrow> Inr DEFAULT_APPEARANCE_PREFERENCES
      | Some st \<Rightarrow>
         (case loadAppearancePreferences_try st of
            Inl e \<Rightarrow> Inr DEFAULT_APPEARANCE_PREFERENCES
          | Inr preferences \<Rightarrow> Inr preferences))"

text \<open>
  \<open>JSON.stringify(preferences)\<close> writes the own properties of the object in the order
  they were created. A preference object has the two string properties \<open>mode\<close> and
  \<open>palette\<close>, created in either order; the order is not part of the value of the
  preference, so it is given beside the record. \<open>persistAppearancePreferences\<close> returns
  the storage as the call leaves it.
\<close>

datatype propertyOrder = ModeFirst | PaletteFirst

definition JSON_stringify_preferences :: "propertyOrder \<Rightarrow> AppearancePreferences \<Rightarrow> jsstring" where
  "JSON_stringify_preferences order preferences =
     (let modeMember = QuoteJSONString (js ''mode'') @ js '':'' @ QuoteJSONString (mode preferences);
          paletteMember =
            QuoteJSONString (js ''palette'') @ js '':'' @ QuoteJSONString (palette preferences)
      in case order of
           ModeFirst \<Rightarrow> js ''{'' @ modeMember @ js '','' @ paletteMember @ js ''}''
         | PaletteFirst \<Rightarrow> js ''{'' @ paletteMember @ js '','' @ modeMember @ js ''}'')"

definition persistAppearancePreferences ::
  "propertyOrder \<Rightarrow> AppearancePreferences \<Rightarrow> AppearanceStorage option \<Rightarrow>
     error + AppearanceStorage option" where
  "persistAppearancePreferences order preferences storage =
     (case storage of
        None \<Rightarrow> Inr None
      | Some st \<Rightarrow>
         (case setItem st APPEARANCE_STORAGE_KEY (JSON_stringify_preferences order preferences) of
            Inl e \<Rightarrow> Inr (Some st)
          | Inr st' \<Rightarrow> Inr (Some st')))"

text \<open>
  The in-memory storage of the unit tests (neither method throws), a storage holding one
  text under the preference key, and texts to store.
\<close>

definition memoryStorage :: "(jsstring \<rightharpoonup> jsstring) \<Rightarrow> AppearanceStorage" where
  "memoryStorage m = \<lparr> items = m, getItem_throws = False, setItem_throws = (\<lambda>key v. False) \<rparr>"

definition storageHolding :: "jsstring \<Rightarrow> AppearanceStorage" where
  "storageHolding raw = memoryStorage [APPEARANCE_STORAGE_KEY \<mapsto> raw]"

definition unknownModeText :: jsstring where
  \<open>unknownModeText = js ''{"mode":"sepia","palette":"catppuccin"}''\<close>

definition legacyText :: jsstring where
  \<open>legacyText = js ''{"mode":"dark","palette":"sunset"}''\<close>

definition legacyDefaultText :: jsstring where
  \<open>legacyDefaultText = js ''{"mode":"light","palette":"default"}''\<close>

definition legacyForestText :: jsstring where
  \<open>legacyForestText = js ''{ "palette" : "forest" }''\<close>

definition currentPaletteText :: jsstring where
  \<open>currentPaletteText = js ''{"mode":"dark","palette":"everforest"}''\<close>

definition unknownBothText :: jsstring where
  \<open>unknownBothText = js ''{"mode":"sepia","palette":"bogus"}''\<close>

text \<open>The parsed value of a stored preference object, in either property order.\<close>

fun storedObject :: "propertyOrder \<Rightarrow> jsstring \<Rightarrow> jsstring \<Rightarrow> json" where
  "storedObject ModeFirst m p = JObject [(js ''mode'', JString m), (js ''palette'', JString p)]"
| "storedObject PaletteFirst m p = JObject [(js ''palette'', JString p), (js ''mode'', JString m)]"

subsection \<open>The stored palette, in words\<close>

text \<open>
  What loading makes of the stored palette alone, whatever the stored mode: a current
  identifier is kept, a legacy identifier is renamed, and anything else, also a palette
  that is missing or not a string, gives \<open>tokyo-night\<close>. This is a second reading, to
  compare \<open>parseStoredPreferences\<close> with.
\<close>

definition spec_stored_palette :: "json option \<Rightarrow> jsstring" where
  "spec_stored_palette stored =
     (case stored of
        Some (JString p) \<Rightarrow>
          if p = js ''catppuccin'' \<or> p = js ''tokyo-night'' \<or> p = js ''everforest'' then p
          else if p = js ''sunset'' then js ''catppuccin''
          else if p = js ''default'' then js ''tokyo-night''
          else if p = js ''forest'' then js ''everforest''
          else js ''tokyo-night''
      | _ \<Rightarrow> js ''tokyo-night'')"

section \<open>Appearance provider (contexts/AppearanceContext.tsx)\<close>

text \<open>
  The models of types/models/Appearance. \<open>null\<close> is \<open>None\<close>. The field \<open>id\<close> of a
  custom palette is \<open>id'\<close> here; its seed fields are those of \<open>PaletteSeedHexColors\<close>.
\<close>

record ActivePaletteSelection =
  palette_type :: jsstring
  preset_palette :: "jsstring option"
  custom_palette_id :: "jsstring option"

record CustomPalette = PaletteSeedHexColors +
  id' :: jsstring
  name :: jsstring
  generated_tokens :: PaletteRgbTokens
  generation_version :: int
  created_at :: jsstring
  updated_at :: jsstring

definition createPresetSelection :: "jsstring \<Rightarrow> ActivePaletteSelection" where
  "createPresetSelection p =
     \<lparr> palette_type = js ''preset'', preset_palette = Some p, custom_palette_id = None \<rparr>"

definition isPresetPalette :: "jsstring \<Rightarrow> bool" where
  "isPresetPalette p \<longleftrightarrow>
     p = js ''catppuccin'' \<or> p = js ''tokyo-night'' \<or> p = js ''everforest''"

text \<open>
  A custom selection is kept when its id is a non-empty string found in the list;
  otherwise control falls through to the preset test, and then to the default preset.
\<close>

definition normalizeActivePaletteSelection ::
  "ActivePaletteSelection \<Rightarrow> CustomPalette list \<Rightarrow> ActivePaletteSelection" where
  "normalizeActivePaletteSelection activePalette customPalettes =
     (if palette_type activePalette = js ''custom'' \<and>
         custom_palette_id activePalette \<noteq> None \<and> custom_palette_id activePalette \<noteq> Some [] \<and>
         list_ex (\<lambda>p. Some (id' p) = custom_palette_id activePalette) customPalettes
      then \<lparr> palette_type = js ''custom'', preset_palette = None,
             custom_palette_id = custom_palette_id activePalette \<rparr>
      else if palette_type activePalette = js ''preset'' \<and>
              (case preset_palette activePalette of
                 Some p \<Rightarrow> isPresetPalette p
               | None \<Rightarrow> False)
      then createPresetSelection (the (preset_palette activePalette))
      else createPresetSelection (palette DEFAULT_APPEARANCE_PREFERENCES))"

text \<open>
  The state the provider keeps, and the two props and context values its callbacks
  close over. A callback reads the state of the render that created it; the model runs
  it in that state.
\<close>

record AppearanceState =
  preferences :: AppearancePreferences
  activePalette :: ActivePaletteSelection
  customPalettes :: "CustomPalette list"

record AppearanceProps =
  persist :: bool
  isLoggedIn :: bool

text \<open>What the provider asks of the API client, and what the server answers.\<close>

datatype request =
    GetAppearance
  | PutActivePreset jsstring
  | PutActiveCustom jsstring

datatype response =
    AppearanceSettingsResponse ActivePaletteSelection "CustomPalette list"
  | SetActivePaletteResponse jsstring ActivePaletteSelection

text \<open>
  An \<open>async\<close> callback of the provider runs up to its first \<open>await\<close>: it has returned
  (\<open>Done\<close>, with the state it leaves), it has thrown (\<open>Fail\<close>, its promise rejects), or it
  waits for the answer to a request (\<open>Await\<close>), and goes on from the answer in the state
  of that later moment. Nothing in these callbacks catches a failing request, so a
  failed answer ends the callback with that failure.
\<close>

datatype step =
    Done AppearanceState
  | Fail error AppearanceState
  | Await request "error + response \<Rightarrow> AppearanceState \<Rightarrow> step"

definition setPalettePreference :: "jsstring \<Rightarrow> AppearancePreferences \<Rightarrow> AppearancePreferences" where
  "setPalettePreference p previous =
     (if palette previous = p then previous else previous \<lparr> palette := p \<rparr>)"

definition refreshPalettes_resume :: "error + response \<Rightarrow> AppearanceState \<Rightarrow> step" where
  "refreshPalettes_resume answer s =
     (case answer of
        Inl e \<Rightarrow> Fail e s
      | Inr (AppearanceSettingsResponse active_palette custom_palettes) \<Rightarrow>
          let nextCustomPalettes = custom_palettes;
              nextActivePalette = normalizeActivePaletteSelection active_palette nextCustomPalettes;
              s1 = s \<lparr> customPalettes := nextCustomPalettes, activePalette := nextActivePalette \<rparr>;
              presetPalette =
                (if palette_type nextActivePalette = js ''preset''
                 then preset_palette nextActivePalette else None)
          in (case presetPalette of
                None \<Rightarrow> Done s1
              | Some p \<Rightarrow>
                  if p = [] then Done s1
                  else Done (s1 \<lparr> preferences := setPalettePreference p (preferences s1) \<rparr>))
      | Inr other \<Rightarrow> Fail (Error ''TypeError'') s)"

definition refreshPalettes :: "AppearanceProps \<Rightarrow> AppearanceState \<Rightarrow> step" where
  "refreshPalettes props s =
     (if \<not> persist props \<or> \<not> isLoggedIn props then Done s
      else Await GetAppearance refreshPalettes_resume)"

definition selectCustomPalette_commit :: "jsstring \<Rightarrow> AppearanceState \<Rightarrow> AppearanceState" where
  "selectCustomPalette_commit customPaletteId s =
     s \<lparr> activePalette :=
           \<lparr> palette_type = js ''custom'', preset_palette = None,
             custom_palette_id = Some customPaletteId \<rparr> \<rparr>"

definition selectCustomPalette :: "AppearanceProps \<Rightarrow> jsstring \<Rightarrow> AppearanceState \<Rightarrow> step" where
  "selectCustomPalette props customPaletteId s =
     (if \<not> list_ex (\<lambda>p. id' p = customPaletteId) (customPalettes s)
      then Fail (Error ''Custom palette not found.'') s
      else if persist props \<and> isLoggedIn props
      then Await (PutActiveCustom customPaletteId)
             (\<lambda>answer s1.
                case answer of
                  Inl e \<Rightarrow> Fail e s1
                | Inr r \<Rightarrow> Done (selectCustomPalette_commit customPaletteId s1))
      else Done (selectCustomPalette_commit customPaletteId s))"

text \<open>
  What it means for a committed selection to resolve: a custom selection names a
  palette of the list, a preset selection names one of the three presets.
\<close>

definition selectionResolves :: "ActivePaletteSelection \<Rightarrow> CustomPalette list \<Rightarrow> bool" where
  "selectionResolves sel palettes \<longleftrightarrow>
     (palette_type sel = js ''custom'' \<and> preset_palette sel = None \<and>
      (\<exists>i. custom_palette_id sel = Some i \<and> i \<in> id' ` set palettes)) \<or>
     (palette_type sel = js ''preset'' \<and> custom_palette_id sel = None \<and>
      (\<exists>p. preset_palette sel = Some p \<and> isPresetPalette p))"

text \<open>A custom palette with the given id, and states to run the callbacks in.\<close>

definition noTokens :: PaletteRgbTokens where
  "noTokens =
     \<lparr> background = [], text' = [], primary_100 = [], primary_80 = [], primary_60 = [],
       secondary_100 = [], secondary_80 = [], secondary_60 = [], black = [], white = [],
       green_100 = [], green_80 = [], green_60 = [], red_100 = [], red_80 = [],
       red_60 = [], yellow_100 = [], yellow_80 = [], yellow_60 = [], blue_100 = [],
       blue_80 = [], blue_60 = [], magenta_100 = [], magenta_80 = [], magenta_60 = [],
       cyan_100 = [], cyan_80 = [], cyan_60 = [] \<rparr>"

definition examplePalette :: "jsstring \<Rightarrow> CustomPalette" where
  "examplePalette i =
     \<lparr> background_seed_hex = js ''#a9b1d6'', text_seed_hex = js ''#1a1b26'',
       primary_seed_hex = js ''#9ece6a'', secondary_seed_hex = js ''#7aa2f7'',
       green_seed_hex = js ''#336699'', red_seed_hex = js ''#e65100'',
       yellow_seed_hex = js ''#f9a825'', blue_seed_hex = js ''#1e88e5'',
       magenta_seed_hex = js ''#8e24aa'', cyan_seed_hex = js ''#00838f'',
       id' = i, name = js ''Mine'', generated_tokens = noTokens, generation_version = 2,
       created_at = js ''2026-01-24T02:32:20Z'', updated_at = js ''2026-01-24T02:32:20Z'' \<rparr>"

definition exampleState :: AppearanceState where
  "exampleState =
     \<lparr> preferences = DEFAULT_APPEARANCE_PREFERENCES,
       activePalette = createPresetSelection (js ''tokyo-night''),
       customPalettes = [examplePalette (js ''p1'')] \<rparr>"

definition missingCustomSelection :: ActivePaletteSelection where
  "missingCustomSelection =
     \<lparr> palette_type = js ''custom'', preset_palette = None,
       custom_palette_id = Some (js ''gone'') \<rparr>"

definition knownCustomSelection :: ActivePaletteSelection where
  "knownCustomSelection =
     \<lparr> palette_type = js ''custom'', preset_palette = None,
       custom_palette_id = Some (js ''p1'') \<rparr>"

definition loggedInProps :: AppearanceProps where
  "loggedInProps = \<lparr> persist = True, isLoggedIn = True \<rparr>"

section \<open>Session controller (contexts/AuthContext.tsx)\<close>

text \<open>
  JavaScript runs one task at a time, and every promise reaction queued by a task runs
  before the next task starts. The provider is therefore a state machine over two kinds of
  events: a component calls \<open>refreshUser\<close>, and the request \<open>GET /auth/me\<close> sent through
  the API client settles. The controller never looks inside the user or the error, so
  both are type parameters.
\<close>

record RefreshUserOptions =
  throwOnError :: "bool option"

text \<open>\<open>options?.throwOnError\<close> as a condition: the options are given and the flag is true.\<close>

definition throwOnError_set :: "RefreshUserOptions option \<Rightarrow> bool" where
  "throwOnError_set options =
     (case options of None \<Rightarrow> False | Some given \<Rightarrow> throwOnError given = Some True)"

text \<open>What the promise returned to a caller of \<open>refreshUser\<close> settles with.\<close>

datatype 'e settlement = Resolved | Rejected 'e

text \<open>
  The effects of the provider, in the order they happen: a request is sent, \<open>setUser\<close>
  is called, the \<open>finally\<close> block clears the reference, the promise returned to a
  caller settles.
\<close>

datatype ('u, 'e) auth_effect =
    SentMe nat
  | SetUser "'u option"
  | ClearedRef
  | Settled nat "'e settlement"

text \<open>
  The provider: the user snapshot; \<open>inFlightRefreshRef.current\<close>, which names the pending
  \<open>refreshPromise\<close> by the number of the request it awaits; the requests sent and not yet
  settled; the number of requests sent so far; the \<open>catch\<close> handlers registered on a
  pending promise (promise, caller, options), in registration order; and the effects so
  far.
\<close>

record ('u, 'e) AuthProvider =
  user :: "'u option"
  inFlightRefreshRef :: "nat option"
  pendingMe :: "nat list"
  sentMe :: nat
  handlers :: "(nat \<times> nat \<times> RefreshUserOptions option) list"
  effects :: "('u, 'e) auth_effect list"

datatype ('u, 'e) auth_event =
    RefreshUser nat "RefreshUserOptions option"
  | SettleMe nat "'e + 'u"

definition initialAuthProvider :: "('u, 'e) AuthProvider" where
  "initialAuthProvider =
     \<lparr> user = None, inFlightRefreshRef = None, pendingMe = [], sentMe = 0, handlers = [],
       effects = [] \<rparr>"

text \<open>
  \<open>refreshUser(options)\<close> called by \<open>caller\<close>. With a promise in flight it only registers
  a \<open>catch\<close> handler on that promise. Otherwise the \<open>async\<close> block starts: it sends the
  request and waits; the reference is then set to the block's promise, and the caller's
  \<open>catch\<close> handler is registered on it.
\<close>

definition refreshUser ::
  "nat \<Rightarrow> RefreshUserOptions option \<Rightarrow> ('u, 'e) AuthProvider \<Rightarrow> ('u, 'e) AuthProvider" where
  "refreshUser caller options s =
     (case inFlightRefreshRef s of
        Some p \<Rightarrow> s \<lparr> handlers := handlers s @ [(p, caller, options)] \<rparr>
      | None \<Rightarrow>
          let n = sentMe s
          in s \<lparr> sentMe := Suc n,
                 pendingMe := pendingMe s @ [n],
                 effects := effects s @ [SentMe n],
                 inFlightRefreshRef := Some n,
                 handlers := handlers s @ [(n, caller, options)] \<rparr>)"

text \<open>
  What a caller's \<open>catch\<close> handler makes of the settled \<open>refreshPromise\<close>: a fulfilled
  promise passes through; a rejection is thrown again when \<open>throwOnError\<close> is set, and
  swallowed otherwise.
\<close>

definition callerSettlement :: "RefreshUserOptions option \<Rightarrow> 'e + 'u \<Rightarrow> 'e settlement" where
  "callerSettlement options result =
     (case result of
        Inr u \<Rightarrow> Resolved
      | Inl e \<Rightarrow> if throwOnError_set options then Rejected e else Resolved)"

text \<open>
  The request \<open>n\<close> settles and the \<open>async\<close> block goes on: \<open>setUser\<close> with the user of
  the response, or in the \<open>catch\<close> clause \<open>setUser(null)\<close> and the error thrown again;
  the \<open>finally\<close> block clears the reference; then the block's promise settles and the
  handlers registered on it run, in order.
\<close>

definition settleMe :: "nat \<Rightarrow> 'e + 'u \<Rightarrow> ('u, 'e) AuthProvider \<Rightarrow> ('u, 'e) AuthProvider" where
  "settleMe n result s =
     (if n \<notin> set (pendingMe s) then s
      else
        let nextUser = (case result of Inr u \<Rightarrow> Some u | Inl e \<Rightarrow> None);
            mine = filter (\<lambda>h. fst h = n) (handlers s)
        in s \<lparr> pendingMe := removeAll n (pendingMe s),
               user := nextUser,
               inFlightRefreshRef := None,
               handlers := filter (\<lambda>h. fst h \<noteq> n) (handlers s),
               effects := effects s @ [SetUser nextUser, ClearedRef] @
                 map (\<lambda>h. Settled (fst (snd h)) (callerSettlement (snd (snd h)) result)) mine \<rparr>)"

fun auth_step :: "('u, 'e) auth_event \<Rightarrow> ('u, 'e) AuthProvider \<Rightarrow> ('u, 'e) AuthProvider" where
  "auth_step (RefreshUser caller options) s = refreshUser caller options s"
| "auth_step (SettleMe n result) s = settleMe n result s"

definition auth_run ::
  "('u, 'e) auth_event list \<Rightarrow> ('u, 'e) AuthProvider \<Rightarrow> ('u, 'e) AuthProvider" where
  "auth_run events s = foldl (\<lambda>s e. auth_step e s) s events"

text \<open>The settlements in a list of effects, and the number of requests sent.\<close>

definition settlements :: "('u, 'e) auth_effect list \<Rightarrow> (nat \<times> 'e settlement) list" where
  "settlements es = concat (map (\<lambda>e. case e of Settled c r \<Rightarrow> [(c, r)] | _ \<Rightarrow> []) es)"

text \<open>
  The invariant of the provider: at most one request is in flight, the reference is set
  exactly then and names it, and every registered handler hangs on that promise.
\<close>

definition auth_inv :: "('u, 'e) AuthProvider \<Rightarrow> bool" where
  "auth_inv s \<longleftrightarrow>
     (case inFlightRefreshRef s of
        None \<Rightarrow> pendingMe s = [] \<and> handlers s = []
      | Some p \<Rightarrow> pendingMe s = [p] \<and> p < sentMe s \<and> list_all (\<lambda>h. fst h = p) (handlers s))"

text \<open>Options for a caller that swallows the failure and one that wants it, and two calls.\<close>

definition quietOptions :: "RefreshUserOptions option" where
  "quietOptions = None"

definition throwingOptions :: "RefreshUserOptions option" where
  "throwingOptions = Some \<lparr> throwOnError = Some True \<rparr>"

definition twoCallers :: "(jsstring, error) auth_event list" where
  "twoCallers = [RefreshUser 0 quietOptions, RefreshUser 1 throwingOptions]"

section \<open>HTTP client with refresh interceptor (lib/axios.ts)\<close>

text \<open>
  The part of a request configuration the interceptor reads: the URL (optional in axios),
  and the flag \<open>_retry\<close>, here \<open>retry'\<close>, absent on a fresh request. An error carries the
  configuration of its request, unless it has none, and the status of the response, if
  there was a response.
\<close>

record RequestConfig =
  url :: "jsstring option"
  retry' :: bool

record AxiosError =
  config :: "RequestConfig option"
  status :: "nat option"

text \<open>
  The client is a state machine over two kinds of events, as the provider above: the
  application calls \<open>api(config)\<close>, and a request that was sent is answered, with a
  response or with a failure (whether the error carries the configuration, and its status).
\<close>

datatype 'r answer = Succeeds 'r | FailsWith bool "nat option"

datatype 'r client_event = Call RequestConfig | Answer nat "'r answer"

text \<open>
  Who awaits the promise of a request: a caller of the application, or the
  \<open>then\<close>/\<open>finally\<close> chain that \<open>refreshAccessToken\<close> builds on \<open>api.post("/auth/refresh")\<close>.
\<close>

datatype awaiter = Caller nat | RefreshChain

datatype 'r reply = Fulfilled 'r | Failed AxiosError

datatype 'r client_effect =
    Sent nat awaiter RequestConfig
  | ClearedHandle
  | Replied nat "'r reply"

text \<open>
  The client: \<open>inFlightRefreshPromise\<close>, which names the pending chain by the number of
  the refresh request it is built on; the requests sent and not yet answered, with who
  awaits them; the interceptor runs suspended at \<open>await refreshAccessToken()\<close>, with the
  caller they serve and the configuration they will resend; counters for requests and
  callers; and the effects so far.
\<close>

record 'r Client =
  inFlightRefreshPromise :: "nat option"
  inflight :: "(nat \<times> awaiter \<times> RequestConfig) list"
  waiting :: "(nat \<times> RequestConfig) list"
  sentCount :: nat
  callCount :: nat
  clientEffects :: "'r client_effect list"

definition initialClient :: "'r Client" where
  "initialClient =
     \<lparr> inFlightRefreshPromise = None, inflight = [], waiting = [], sentCount = 0,
       callCount = 0, clientEffects = [] \<rparr>"

definition refreshConfig :: RequestConfig where
  "refreshConfig = \<lparr> url = Some (js ''/auth/refresh''), retry' = False \<rparr>"

text \<open>\<open>api(config)\<close> on behalf of an awaiter: the request goes out.\<close>

definition send :: "awaiter \<Rightarrow> RequestConfig \<Rightarrow> 'r Client \<Rightarrow> 'r Client" where
  "send k cfg s =
     s \<lparr> sentCount := Suc (sentCount s),
         inflight := inflight s @ [(sentCount s, k, cfg)],
         clientEffects := clientEffects s @ [Sent (sentCount s) k cfg] \<rparr>"

definition call :: "RequestConfig \<Rightarrow> 'r Client \<Rightarrow> 'r Client" where
  "call cfg s = send (Caller (callCount s)) cfg (s \<lparr> callCount := Suc (callCount s) \<rparr>)"

text \<open>
  \<open>refreshAccessToken\<close>: with no chain pending, post the refresh request and keep the chain
  built on it; in both cases the pending chain is what the caller awaits.
\<close>

definition refreshAccessToken :: "'r Client \<Rightarrow> 'r Client" where
  "refreshAccessToken s =
     (case inFlightRefreshPromise s of
        Some p \<Rightarrow> s
      | None \<Rightarrow> (send RefreshChain refreshConfig s) \<lparr> inFlightRefreshPromise := Some (sentCount s) \<rparr>)"

text \<open>The condition under which the interceptor throws the error it was given.\<close>

definition shouldRethrow :: "AxiosError \<Rightarrow> bool" where
  "shouldRethrow error =
     (case config error of
        None \<Rightarrow> True
      | Some requestConfig \<Rightarrow>
          let requestUrl = (case url requestConfig of Some u \<Rightarrow> u | None \<Rightarrow> [])
          in status error \<noteq> Some 401 \<or> retry' requestConfig \<or>
             String_includes requestUrl (js ''/auth/log-in'') \<or>
             String_includes requestUrl (js ''/auth/refresh''))"

text \<open>The suspended interceptor runs go on after a successful refresh: each resends.\<close>

definition resendAll :: "(nat \<times> RequestConfig) list \<Rightarrow> 'r Client \<Rightarrow> 'r Client" where
  "resendAll ws s = foldl (\<lambda>t w. send (Caller (fst w)) (snd w) t) s ws"

text \<open>
  The promise of a request settles for its awaiter. A caller gets the reply. The refresh
  chain drops the response, clears the handle in its \<open>finally\<close> callback and settles;
  every interceptor run that awaited it then goes on: after a success it resends its
  request with \<open>api(requestConfig)\<close>, after a failure its \<open>await\<close> throws the failure
  of the refresh, which nothing catches.
\<close>

definition deliver :: "awaiter \<Rightarrow> 'r reply \<Rightarrow> 'r Client \<Rightarrow> 'r Client" where
  "deliver k reply s =
     (case k of
        Caller c \<Rightarrow> s \<lparr> clientEffects := clientEffects s @ [Replied c reply] \<rparr>
      | RefreshChain \<Rightarrow>
          let s1 = s \<lparr> inFlightRefreshPromise := None, waiting := [],
                       clientEffects := clientEffects s @ [ClearedHandle] \<rparr>
          in case reply of
               Fulfilled r \<Rightarrow> resendAll (waiting s) s1
             | Failed e \<Rightarrow>
                 s1 \<lparr> clientEffects :=
                        clientEffects s1 @ map (\<lambda>w. Replied (fst w) (Failed e)) (waiting s) \<rparr>)"

text \<open>
  The rejection handler of the response interceptor, run for the awaiter of the failed
  request. When it does not rethrow, it marks the configuration, calls
  \<open>refreshAccessToken\<close> and suspends on the chain. Were the awaiter the chain itself, the
  chain would wait for its own promise and nothing would settle; \<open>shouldRethrow\<close> holds
  for every failure of the refresh request, so this does not happen.
\<close>

definition onRejected :: "awaiter \<Rightarrow> AxiosError \<Rightarrow> 'r Client \<Rightarrow> 'r Client" where
  "onRejected k error s =
     (if shouldRethrow error then deliver k (Failed error) s
      else
        let requestConfig = (the (config error)) \<lparr> retry' := True \<rparr>;
            s1 = refreshAccessToken s
        in case k of
             Caller c \<Rightarrow> s1 \<lparr> waiting := waiting s1 @ [(c, requestConfig)] \<rparr>
           | RefreshChain \<Rightarrow> s1)"

definition answer :: "nat \<Rightarrow> 'r answer \<Rightarrow> 'r Client \<Rightarrow> 'r Client" where
  "answer n a s =
     (case find (\<lambda>x. fst x = n) (inflight s) of
        None \<Rightarrow> s
      | Some (m, k, cfg) \<Rightarrow>
          let s1 = s \<lparr> inflight := filter (\<lambda>x. fst x \<noteq> n) (inflight s) \<rparr>
          in case a of
               Succeeds r \<Rightarrow> deliver k (Fulfilled r) s1
             | FailsWith hasConfig st \<Rightarrow>
                 onRejected k \<lparr> config = (if hasConfig then Some cfg else None), status = st \<rparr> s1)"

fun client_step :: "'r client_event \<Rightarrow> 'r Client \<Rightarrow> 'r Client" where
  "client_step (Call cfg) s = call cfg s"
| "client_step (Answer n a) s = answer n a s"

definition client_run :: "'r client_event list \<Rightarrow> 'r Client \<Rightarrow> 'r Client" where
  "client_run events s = foldl (\<lambda>s e. client_step e s) s events"

text \<open>How often the request of a caller was sent, and how many refresh requests are in flight.\<close>

definition isSendFor :: "nat \<Rightarrow> 'r client_effect \<Rightarrow> bool" where
  "isSendFor c e = (case e of Sent n k cfg \<Rightarrow> k = Caller c | _ \<Rightarrow> False)"

definition sendsFor :: "nat \<Rightarrow> 'r client_effect list \<Rightarrow> nat" where
  "sendsFor c es = length (filter (isSendFor c) es)"

definition refreshesInFlight :: "'r Client \<Rightarrow> nat" where
  "refreshesInFlight s = length (filter (\<lambda>x. fst (snd x) = RefreshChain) (inflight s))"

text \<open>A configuration whose 401 the interceptor would answer with a refresh and a resend.\<close>

definition retryable :: "RequestConfig \<Rightarrow> bool" where
  "retryable cfg \<longleftrightarrow>
     \<not> retry' cfg \<and>
     \<not> String_includes (case url cfg of Some u \<Rightarrow> u | None \<Rightarrow> []) (js ''/auth/log-in'') \<and>
     \<not> String_includes (case url cfg of Some u \<Rightarrow> u | None \<Rightarrow> []) (js ''/auth/refresh'')"

text \<open>
  The invariant of the client: requests in flight have distinct numbers below the
  counter; the handle is set exactly when one refresh request is in flight, which it
  names; without a handle nobody waits; and whoever waits will resend a marked
  configuration.
\<close>

definition client_inv :: "'r Client \<Rightarrow> bool" where
  "client_inv s \<longleftrightarrow>
     distinct (map fst (inflight s)) \<and>
     list_all (\<lambda>x. fst x < sentCount s) (inflight s) \<and>
     list_all (\<lambda>w. retry' (snd w)) (waiting s) \<and>
     (case inFlightRefreshPromise s of
        None \<Rightarrow> filter (\<lambda>x. fst (snd x) = RefreshChain) (inflight s) = [] \<and> waiting s = []
      | Some p \<Rightarrow>
          filter (\<lambda>x. fst (snd x) = RefreshChain) (inflight s) = [(p, RefreshChain, refreshConfig)])"

text \<open>
  A bound on the sends of a caller's request that no step raises: the sends so far, one
  more for each retryable request of the caller in flight, and one more for each of
  its interceptor runs that waits for the refresh.
\<close>

definition potential :: "nat \<Rightarrow> 'r Client \<Rightarrow> nat" where
  "potential c s =
     sendsFor c (clientEffects s) +
     length (filter (\<lambda>x. fst (snd x) = Caller c \<and> retryable (snd (snd x))) (inflight s)) +
     length (filter (\<lambda>w. fst w = c) (waiting s))"

text \<open>
  Vocabulary for the proofs: the two halves of the invariant, the bound that holds in
  every reachable state, and the state of a caller whose request cannot be resent.
\<close>

definition ids_ok :: "'r Client \<Rightarrow> bool" where
  "ids_ok s \<longleftrightarrow> distinct (map fst (inflight s)) \<and> list_all (\<lambda>x. fst x < sentCount s) (inflight s)"

definition refreshEntries :: "'r Client \<Rightarrow> (nat \<times> awaiter \<times> RequestConfig) list" where
  "refreshEntries s = filter (\<lambda>x. fst (snd x) = RefreshChain) (inflight s)"

definition bounded :: "'r Client \<Rightarrow> bool" where
  "bounded s \<longleftrightarrow>
     client_inv s \<and> (\<forall>c. callCount s \<le> c \<longrightarrow> potential c s = 0) \<and> (\<forall>c. potential c s \<le> 2)"

definition sentOnce :: "nat \<Rightarrow> 'r Client \<Rightarrow> bool" where
  "sentOnce c s \<longleftrightarrow>
     client_inv s \<and> c < callCount s \<and> potential c s \<le> 1 \<and> 1 \<le> sendsFor c (clientEffects s)"

text \<open>
  A burst of concurrent expiries: requests in flight for callers, with distinct numbers
  and retryable configurations, each answered 401; and the interceptor run each answer
  leaves suspended.
\<close>

definition unauthorized :: "nat \<times> nat \<times> RequestConfig \<Rightarrow> 'r client_event" where
  "unauthorized x = Answer (fst x) (FailsWith True (Some 401))"

definition suspended :: "nat \<times> nat \<times> RequestConfig \<Rightarrow> nat \<times> RequestConfig" where
  "suspended x = (fst (snd x), (snd (snd x)) \<lparr> retry' := True \<rparr>)"

definition burstOf :: "(nat \<times> nat \<times> RequestConfig) list \<Rightarrow> 'r Client \<Rightarrow> bool" where
  "burstOf rs s \<longleftrightarrow>
     distinct (map fst rs) \<and>
     list_all (\<lambda>x. (fst x, Caller (fst (snd x)), snd (snd x)) \<in> set (inflight s) \<and>
                   retryable (snd (snd x))) rs"

text \<open>
  Requests of the unit tests of the client: a protected resource, another one, and the
  login endpoint; and traces: a request whose 401 is answered by a successful refresh and
  a resend, two requests in flight together, and a refresh that fails.
\<close>

definition protectedConfig :: RequestConfig where
  "protectedConfig = \<lparr> url = Some (js ''/protected''), retry' = False \<rparr>"

definition meConfig :: RequestConfig where
  "meConfig = \<lparr> url = Some (js ''/auth/me''), retry' = False \<rparr>"

definition loginConfig :: RequestConfig where
  "loginConfig = \<lparr> url = Some (js ''/auth/log-in''), retry' = False \<rparr>"

definition retriedOnce :: "unit client_event list" where
  "retriedOnce =
     [Call protectedConfig, Answer 0 (FailsWith True (Some 401)), Answer 1 (Succeeds ())]"

definition twoInFlight :: "unit client_event list" where
  "twoInFlight = [Call protectedConfig, Call meConfig]"

definition refreshFails :: "unit client_event list" where
  "refreshFails =
     [Call protectedConfig, Answer 0 (FailsWith True (Some 401)),
      Answer 1 (FailsWith True (Some 401))]"

section \<open>Properties\<close>

subsection \<open>Rounding of doubles\<close>

lemma pow2_pos: "0 < pow2 e"
  by (simp add: pow2_def)

lemma pow2_Suc: "pow2 (e + 1) = 2 * pow2 e"
proof (cases "0 \<le> e")
  case True
  then show ?thesis by (simp add: pow2_def nat_add_distrib)
next
  case False
  then have "nat (- e) = Suc (nat (- (e + 1)))" by simp
  then show ?thesis using False by (auto simp: pow2_def)
qed

lemma pow2_mono_step: "pow2 e \<le> pow2 (e + int k)"
proof (induction k)
  case 0
  then show ?case by simp
next
  case (Suc k)
  have "pow2 (e + int (Suc k)) = 2 * pow2 (e + int k)"
    using pow2_Suc [of "e + int k"] by (simp add: algebra_simps)
  with Suc pow2_pos [of "e + int k"] show ?case by simp
qed

lemma pow2_mono: "a \<le> b \<Longrightarrow> pow2 a \<le> pow2 b"
  using pow2_mono_step [of a "nat (b - a)"] by simp

lemma pow2_less_imp: "pow2 a < pow2 b \<Longrightarrow> a < b"
  using pow2_mono [of b a] by (cases "a < b") auto

lemma floor_log2_le: "x \<noteq> 0 \<Longrightarrow> pow2 (floor_log2 x) \<le> \<bar>x\<bar>"
proof -
  assume nz: "x \<noteq> 0"
  obtain p q where pq: "quotient_of \<bar>x\<bar> = (p, q)" by (cases "quotient_of \<bar>x\<bar>")
  have q: "0 < q" using pq by (rule quotient_of_denom_pos)
  have ax: "\<bar>x\<bar> = of_int p / of_int q" using pq by (rule quotient_of_div)
  have p: "0 < p"
  proof -
    have "0 < \<bar>x\<bar>" using nz by simp
    then have "0 < (of_int p :: rat) / of_int q" using ax by simp
    then show ?thesis using q by (simp add: zero_less_divide_iff)
  qed
  let ?d = "bitlen p - bitlen q"
  show ?thesis
  proof (cases "pow2 ?d \<le> \<bar>x\<bar>")
    case True
    then show ?thesis by (simp add: floor_log2_def pq)
  next
    case False
    have bp: "1 \<le> bitlen p" using p bitlen_eq_zero_iff [of p] bitlen_nonneg [of p] by linarith
    have bq: "1 \<le> bitlen q" using q bitlen_eq_zero_iff [of q] bitlen_nonneg [of q] by linarith
    have lo: "(2::rat) ^ nat (bitlen p - 1) \<le> of_int p"
    proof -
      have "(2::int) ^ nat (bitlen p - 1) \<le> p" using bitlen_bounds [OF p] by simp
      then have "(of_int ((2::int) ^ nat (bitlen p - 1)) :: rat) \<le> of_int p"
        by (simp only: of_int_le_iff)
      then show ?thesis by simp
    qed
    have hi: "of_int q \<le> (2::rat) ^ nat (bitlen q)"
    proof -
      have "q \<le> (2::int) ^ nat (bitlen q)" using bitlen_bounds [OF q] by simp
      then have "(of_int q :: rat) \<le> of_int ((2::int) ^ nat (bitlen q))"
        by (simp only: of_int_le_iff)
      then show ?thesis by simp
    qed
    have key: "pow2 (?d - 1) * of_int q \<le> of_int p"
    proof (cases "0 \<le> ?d - 1")
      case True
      then have n: "nat (bitlen p - 1) = nat (?d - 1) + nat (bitlen q)" using bq by simp
      have "pow2 (?d - 1) * of_int q \<le> 2 ^ nat (?d - 1) * 2 ^ nat (bitlen q)"
        using True hi by (simp add: pow2_def)
      also have "\<dots> = 2 ^ nat (bitlen p - 1)" by (simp add: n power_add)
      finally show ?thesis using lo by (rule order_trans)
    next
      case neg: False
      then have n: "nat (bitlen q) = nat (- (?d - 1)) + nat (bitlen p - 1)" using bp by simp
      have "of_int q \<le> (2::rat) ^ nat (- (?d - 1)) * 2 ^ nat (bitlen p - 1)"
        using hi by (simp add: n power_add)
      also have "\<dots> \<le> 2 ^ nat (- (?d - 1)) * of_int p"
        using lo by simp
      finally have "of_int q / 2 ^ nat (- (?d - 1)) \<le> (of_int p :: rat)"
        by (simp add: divide_le_eq mult.commute)
      then show ?thesis using neg by (simp add: pow2_def)
    qed
    have "pow2 (?d - 1) \<le> of_int p / of_int q"
      using key q by (simp add: le_divide_eq)
    then have "pow2 (?d - 1) \<le> \<bar>x\<bar>" by (simp only: ax)
    then show ?thesis using False by (simp add: floor_log2_def pq)
  qed
qed

lemma round_half_even_err: "\<bar>of_int (round_half_even y) - y\<bar> \<le> 1 / 2"
proof -
  have "of_int \<lfloor>y\<rfloor> \<le> y" "y < of_int \<lfloor>y\<rfloor> + 1" by linarith+
  then show ?thesis
    by (auto simp: round_half_even_def Let_def abs_le_iff)
qed

lemma binary64_round_err:
  assumes "\<bar>x\<bar> \<le> 256"
  shows "\<bar>binary64_round x - x\<bar> \<le> 1 / 2 ^ 45"
proof (cases "x = 0")
  case True
  then show ?thesis by (simp add: binary64_round_def)
next
  case False
  define u where "u = pow2 (floor_log2 x - 52)"
  have u0: "0 < u" by (simp add: u_def pow2_pos)
  have "pow2 (floor_log2 x) \<le> \<bar>x\<bar>" using False by (rule floor_log2_le)
  also have "\<bar>x\<bar> < pow2 9" using assms by (simp add: pow2_def)
  finally have "floor_log2 x < 9" by (rule pow2_less_imp)
  then have "pow2 (floor_log2 x - 52) \<le> pow2 (- 44)" by (intro pow2_mono) simp
  then have u44: "u \<le> 1 / 2 ^ 44" by (simp add: u_def pow2_def)
  have "binary64_round x - x = (of_int (round_half_even (x / u)) - x / u) * u"
    using False u0 by (simp add: binary64_round_def u_def [symmetric] Let_def algebra_simps)
  then have "\<bar>binary64_round x - x\<bar> = \<bar>of_int (round_half_even (x / u)) - x / u\<bar> * u"
    using u0 by (simp add: abs_mult)
  also have "\<dots> \<le> (1 / 2) * u"
    using round_half_even_err [of "x / u"] u0 by (intro mult_right_mono) simp_all
  also have "\<dots> \<le> (1 / 2) * (1 / 2 ^ 44)" using u44 by simp
  finally show ?thesis by simp
qed

lemma lightenChannel_exact:
  assumes c: "0 \<le> c" "c \<le> 255"
    and m: "\<bar>m - q\<bar> \<le> 1 / 2 ^ 45"
    and q: "0 \<le> q" "q \<le> 1"
    and n: "\<bar>of_int c + (255 - of_int c) * q - of_int n\<bar> \<le> 2 / 5"
  shows "lightenChannel c m = n"
proof -
  define eps :: rat where "eps = 1 / 2 ^ 45"
  have eps: "0 < eps" "eps \<le> 1 / 1000000" by (simp_all add: eps_def)
  define C :: rat where "C = of_int c"
  have C: "0 \<le> C" "C \<le> 255" using c by (simp_all add: C_def)
  define t1 where "t1 = fl_sub 255 C"
  define t2 where "t2 = fl_mul t1 m"
  define mixed where "mixed = fl_add C t2"
  have m': "\<bar>m - q\<bar> \<le> eps" using m by (simp add: eps_def)
  have e1: "\<bar>t1 - (255 - C)\<bar> \<le> eps"
    unfolding t1_def fl_sub_def eps_def using C by (intro binary64_round_err) simp
  have t1b: "0 \<le> t1 + eps" "t1 \<le> 255 + eps" using e1 C by (simp_all add: abs_le_iff)
  have mb: "- eps \<le> m" "m \<le> 1 + eps" using m' q by (simp_all add: abs_le_iff)
  have prod_abs: "\<bar>t1 * m\<bar> \<le> 256"
  proof -
    have "\<bar>t1\<bar> \<le> 255 + eps" using t1b eps by (simp add: abs_le_iff)
    moreover have "\<bar>m\<bar> \<le> 1 + eps" using mb eps by (simp add: abs_le_iff)
    ultimately have "\<bar>t1\<bar> * \<bar>m\<bar> \<le> (255 + eps) * (1 + eps)"
      by (intro mult_mono) (use eps in simp_all)
    also have "\<dots> \<le> 256" using eps by (simp add: eps_def)
    finally show ?thesis by (simp add: abs_mult)
  qed
  have e2: "\<bar>t2 - t1 * m\<bar> \<le> eps"
    unfolding t2_def fl_mul_def eps_def using prod_abs by (rule binary64_round_err)
  have d1: "\<bar>t1 * m - (255 - C) * q\<bar> \<le> 257 * eps"
  proof -
    have "t1 * m - (255 - C) * q = (t1 - (255 - C)) * m + (255 - C) * (m - q)"
      by (simp add: algebra_simps)
    moreover have "\<bar>(t1 - (255 - C)) * m\<bar> \<le> eps * (1 + eps)"
    proof -
      have "\<bar>m\<bar> \<le> 1 + eps" using mb eps by (simp add: abs_le_iff)
      then have "\<bar>t1 - (255 - C)\<bar> * \<bar>m\<bar> \<le> eps * (1 + eps)"
        using e1 eps by (intro mult_mono) simp_all
      then show ?thesis by (simp add: abs_mult)
    qed
    moreover have "\<bar>(255 - C) * (m - q)\<bar> \<le> 255 * eps"
    proof -
      have "\<bar>255 - C\<bar> \<le> 255" using C by (simp add: abs_le_iff)
      then have "\<bar>255 - C\<bar> * \<bar>m - q\<bar> \<le> 255 * eps"
        using m' eps by (intro mult_mono) simp_all
      then show ?thesis by (simp add: abs_mult)
    qed
    moreover have "eps * (1 + eps) \<le> 2 * eps"
      using eps by (simp add: algebra_simps)
    ultimately show ?thesis by linarith
  qed
  have qb: "0 \<le> (255 - C) * q" "(255 - C) * q \<le> 255 - C"
    using C q by (simp_all add: mult_left_le)
  have sum_abs: "\<bar>C + t2\<bar> \<le> 256"
    using e2 d1 qb C eps by (simp add: abs_le_iff)
  have e3: "\<bar>mixed - (C + t2)\<bar> \<le> eps"
    unfolding mixed_def fl_add_def eps_def using sum_abs by (rule binary64_round_err)
  define E where "E = C + (255 - C) * q"
  have Eb: "0 \<le> E" "E \<le> 255" using qb C by (simp_all add: E_def)
  have dm: "\<bar>mixed - E\<bar> \<le> 259 * eps"
    using e3 e2 d1 unfolding E_def by linarith
  define cl where "cl = max 0 (min 255 mixed)"
  have dc: "\<bar>cl - E\<bar> \<le> 259 * eps"
    using dm Eb unfolding cl_def by (auto simp: abs_le_iff max_def min_def)
  have "\<bar>E - of_int n\<bar> \<le> 2 / 5" using n by (simp add: E_def C_def)
  then have En: "E - of_int n \<le> 2 / 5" "of_int n - E \<le> 2 / 5" by linarith+
  have dc': "cl - E \<le> 259 * eps" "E - cl \<le> 259 * eps" using dc by linarith+
  have "of_int n \<le> cl + 1 / 2" "cl + 1 / 2 < of_int n + 1"
    using En dc' eps by linarith+
  then have "\<lfloor>cl + 1 / 2\<rfloor> = n" by (simp add: floor_unique)
  then show ?thesis
    by (simp add: lightenChannel_def Math_round_def Let_def cl_def mixed_def t2_def t1_def C_def)
qed

lemma lit_0_eq: "lit_0 = 0"
  by (simp add: lit_0_def binary64_round_def)

lemma lit_0_2_err: "\<bar>lit_0_2 - 1 / 5\<bar> \<le> 1 / 2 ^ 45"
  using binary64_round_err [of "2 / 10"] by (simp add: lit_0_2_def)

lemma lit_0_4_err: "\<bar>lit_0_4 - 2 / 5\<bar> \<le> 1 / 2 ^ 45"
  using binary64_round_err [of "4 / 10"] by (simp add: lit_0_4_def)

lemma fifths_round:
  fixes a :: int
  shows "\<bar>of_int a / 5 - (of_int ((2 * a + 5) div 10) :: rat)\<bar> \<le> 2 / 5"
proof -
  define n where "n = (2 * a + 5) div 10"
  have "\<bar>a - 5 * n\<bar> \<le> 2" unfolding n_def by presburger
  then have "\<bar>(of_int (a - 5 * n) :: rat)\<bar> \<le> of_int 2"
    by (simp only: of_int_abs [symmetric] of_int_le_iff)
  then have "\<bar>(of_int a :: rat) - 5 * of_int n\<bar> \<le> 2" by simp
  then have "(of_int a :: rat) - 5 * of_int n \<le> 2" "5 * of_int n - (of_int a :: rat) \<le> 2"
    by linarith+
  then have "(of_int a :: rat) / 5 - of_int n \<le> 2 / 5" "of_int n - (of_int a :: rat) / 5 \<le> 2 / 5"
    by simp_all
  then show ?thesis unfolding n_def [symmetric] by linarith
qed

lemma mix_term_bounds:
  fixes c k :: int
  assumes "0 \<le> c" "c \<le> 255" "0 \<le> k" "k \<le> 5"
  shows "0 \<le> (255 - c) * k" "(255 - c) * k \<le> 1275 - 5 * c"
proof -
  show "0 \<le> (255 - c) * k" using assms by simp
  have "(255 - c) * k \<le> (255 - c) * 5" using assms by (intro mult_left_mono) simp_all
  then show "(255 - c) * k \<le> 1275 - 5 * c" by simp
qed

lemma spec_mix_channel_fifths:
  assumes "0 \<le> c" "c \<le> 255" "0 \<le> k" "k \<le> 5"
  shows "spec_mix_channel (of_int k / 5) c = (2 * (5 * c + (255 - c) * k) + 5) div 10"
proof -
  define a where "a = 5 * c + (255 - c) * k"
  have E: "(of_int c :: rat) + (255 - of_int c) * (of_int k / 5) = of_int a / 5"
    by (simp add: a_def algebra_simps)
  have "0 \<le> a" "a \<le> 1275" unfolding a_def using mix_term_bounds [OF assms] assms by linarith+
  then have b: "0 \<le> (of_int a :: rat) / 5" "(of_int a :: rat) / 5 \<le> 255" by simp_all
  have "(of_int a :: rat) / 5 + 1 / 2 = of_int (2 * a + 5) / of_int 10" by simp
  then have "\<lfloor>(of_int a :: rat) / 5 + 1 / 2\<rfloor> = (2 * a + 5) div 10"
    by (simp only: floor_divide_of_int_eq)
  moreover have "max 0 (min 255 ((of_int a :: rat) / 5)) = of_int a / 5"
    using b by (simp only: min_absorb2 max_absorb2)
  ultimately show ?thesis unfolding spec_mix_channel_def E a_def [symmetric]
    by (simp only:)
qed

lemma lightenChannel_fifths:
  assumes c: "0 \<le> c" "c \<le> 255" and k: "0 \<le> k" "k \<le> 5"
    and m: "\<bar>m - of_int k / 5\<bar> \<le> 1 / 2 ^ 45"
  shows "lightenChannel c m = spec_mix_channel (of_int k / 5) c"
proof -
  define a where "a = 5 * c + (255 - c) * k"
  have E: "(of_int c :: rat) + (255 - of_int c) * (of_int k / 5) = of_int a / 5"
    by (simp add: a_def algebra_simps)
  have "lightenChannel c m = (2 * a + 5) div 10"
  proof (rule lightenChannel_exact [OF c m])
    show "0 \<le> (of_int k :: rat) / 5" "(of_int k :: rat) / 5 \<le> 1" using k by simp_all
    show "\<bar>of_int c + (255 - of_int c) * (of_int k / 5) - (of_int ((2 * a + 5) div 10) :: rat)\<bar> \<le> 2 / 5"
      unfolding E by (rule fifths_round)
  qed
  then show ?thesis using spec_mix_channel_fifths [OF c k] by (simp add: a_def)
qed

lemma lightenChannel_lit_0:
  "0 \<le> c \<Longrightarrow> c \<le> 255 \<Longrightarrow> lightenChannel c lit_0 = spec_mix_channel 0 c"
  using lightenChannel_fifths [of c 0 lit_0] by (simp add: lit_0_eq)

lemma lightenChannel_lit_0_2:
  "0 \<le> c \<Longrightarrow> c \<le> 255 \<Longrightarrow> lightenChannel c lit_0_2 = spec_mix_channel (1 / 5) c"
  using lightenChannel_fifths [of c 1 lit_0_2] lit_0_2_err by simp

lemma lightenChannel_lit_0_4:
  "0 \<le> c \<Longrightarrow> c \<le> 255 \<Longrightarrow> lightenChannel c lit_0_4 = spec_mix_channel (2 / 5) c"
  using lightenChannel_fifths [of c 2 lit_0_4] lit_0_4_err by simp

lemma spec_mix_channel_0: "0 \<le> c \<Longrightarrow> c \<le> 255 \<Longrightarrow> spec_mix_channel 0 c = c"
  using spec_mix_channel_fifths [of c 0] by simp

lemma spec_mix_channel_ge:
  assumes "0 \<le> c" "c \<le> 255" "0 \<le> k" "k \<le> 5"
  shows "c \<le> spec_mix_channel (of_int k / 5) c" "spec_mix_channel (of_int k / 5) c \<le> 255"
proof -
  define P where "P = (255 - c) * k"
  have "0 \<le> P" "P \<le> 1275 - 5 * c" unfolding P_def using mix_term_bounds [OF assms] by simp_all
  then have "c \<le> (2 * (5 * c + P) + 5) div 10" "(2 * (5 * c + P) + 5) div 10 \<le> 255"
    by presburger+
  then show "c \<le> spec_mix_channel (of_int k / 5) c" "spec_mix_channel (of_int k / 5) c \<le> 255"
    unfolding spec_mix_channel_fifths [OF assms] P_def [symmetric] by simp_all
qed

subsection \<open>Hex colors\<close>

lemma dropWhile_last:
  "dropWhile P xs \<noteq> [] \<Longrightarrow> last (dropWhile P xs) = last xs"
  by (induction xs) (auto split: if_splits)

lemma trim_hd: "trim s \<noteq> [] \<Longrightarrow> \<not> isWhiteSpace (hd (trim s))"
proof -
  assume ne: "trim s \<noteq> []"
  define a where "a = dropWhile isWhiteSpace s"
  define b where "b = dropWhile isWhiteSpace (rev a)"
  have t: "trim s = rev b" by (simp add: trim_def a_def b_def)
  have bne: "b \<noteq> []" using ne t by simp
  then have ane: "a \<noteq> []" by (auto simp: b_def)
  have "hd (trim s) = last b" using bne by (simp add: t hd_rev)
  also have "\<dots> = last (rev a)" using bne unfolding b_def by (rule dropWhile_last)
  also have "\<dots> = hd a" using ane by (simp add: last_rev)
  finally show ?thesis using ane hd_dropWhile [of isWhiteSpace s] by (simp add: a_def)
qed

lemma trim_last: "trim s \<noteq> [] \<Longrightarrow> \<not> isWhiteSpace (last (trim s))"
proof -
  assume ne: "trim s \<noteq> []"
  define b where "b = dropWhile isWhiteSpace (rev (dropWhile isWhiteSpace s))"
  have t: "trim s = rev b" by (simp add: trim_def b_def)
  have bne: "b \<noteq> []" using ne t by simp
  have "last (trim s) = hd b" using bne by (simp add: t last_rev)
  then show ?thesis using bne hd_dropWhile [of isWhiteSpace "rev (dropWhile isWhiteSpace s)"]
    by (simp add: b_def)
qed

lemma dropWhile_id: "xs = [] \<or> \<not> P (hd xs) \<Longrightarrow> dropWhile P xs = xs"
  by (cases xs) auto

lemma trim_idem: "trim (trim s) = trim s"
proof (cases "trim s = []")
  case True
  have "trim [] = []" by (simp add: trim_def)
  then show ?thesis using True by simp
next
  case False
  have 1: "dropWhile isWhiteSpace (trim s) = trim s"
    using trim_hd [OF False] by (intro dropWhile_id) simp
  have 2: "dropWhile isWhiteSpace (rev (trim s)) = rev (trim s)"
    using trim_last [OF False] False by (intro dropWhile_id) (simp add: hd_rev)
  show ?thesis unfolding trim_def [of "trim s"] 1 2 by simp
qed

lemma isValidHexColor_trim: "isValidHexColor (trim s) = isValidHexColor s"
  by (simp add: isValidHexColor_def trim_idem)

lemma isHexDigit_not_ws: "isHexDigit c \<Longrightarrow> \<not> isWhiteSpace c"
  by (auto simp: isHexDigit_def isWhiteSpace_def)

lemma hexDigitValue_range: "isHexDigit c \<Longrightarrow> 0 \<le> hexDigitValue c \<and> hexDigitValue c \<le> 15"
  by (auto simp: isHexDigit_def hexDigitValue_def)

lemma Number_parseInt16_pair:
  assumes "isHexDigit a" "isHexDigit b"
  shows "Number_parseInt16 [a, b] = Some (16 * hexDigitValue a + hexDigitValue b)"
proof -
  have a: "\<not> isWhiteSpace a" "a \<noteq> 43" "a \<noteq> 45"
    using assms(1) by (auto simp: isHexDigit_def isWhiteSpace_def)
  have b: "b \<noteq> 120" "b \<noteq> 88" using assms(2) by (auto simp: isHexDigit_def)
  show ?thesis
    using a b assms by (simp add: Number_parseInt16_def trimStart_def Let_def hexValue_def)
qed

lemma parseHexChannel_pair:
  assumes "isHexDigit a" "isHexDigit b"
  shows "\<exists>v. parseHexChannel [a, b] = Inr v \<and> 0 \<le> v \<and> v \<le> 255"
  using Number_parseInt16_pair [OF assms] hexDigitValue_range [OF assms(1)]
    hexDigitValue_range [OF assms(2)]
  by (simp add: parseHexChannel_def)

lemma length_7E:
  assumes "length t = 7"
  obtains x0 x1 x2 x3 x4 x5 x6 where "t = [x0, x1, x2, x3, x4, x5, x6]"
  using assms by (auto simp: numeral_eq_Suc length_Suc_conv)

lemma parseHexToRgbChannels_valid:
  assumes "isValidHexColor hex"
  shows "\<exists>r g b. parseHexToRgbChannels hex = Inr (r, g, b)
           \<and> 0 \<le> r \<and> r \<le> 255 \<and> 0 \<le> g \<and> g \<le> 255 \<and> 0 \<le> b \<and> b \<le> 255"
proof -
  define t where "t = trim hex"
  have len: "length t = 7" and hx: "list_all isHexDigit (tl t)"
    using assms by (simp_all add: isValidHexColor_def t_def Let_def)
  from len obtain x0 x1 x2 x3 x4 x5 x6 where t: "t = [x0, x1, x2, x3, x4, x5, x6]"
    by (rule length_7E)
  have d: "isHexDigit x1" "isHexDigit x2" "isHexDigit x3" "isHexDigit x4" "isHexDigit x5" "isHexDigit x6"
    using hx by (simp_all add: t)
  obtain r where r: "parseHexChannel [x1, x2] = Inr r" "0 \<le> r" "r \<le> 255"
    using parseHexChannel_pair [OF d(1) d(2)] by blast
  obtain g where g: "parseHexChannel [x3, x4] = Inr g" "0 \<le> g" "g \<le> 255"
    using parseHexChannel_pair [OF d(3) d(4)] by blast
  obtain b where b: "parseHexChannel [x5, x6] = Inr b" "0 \<le> b" "b \<le> 255"
    using parseHexChannel_pair [OF d(5) d(6)] by blast
  have v: "isValidHexColor t" using assms by (simp add: t_def isValidHexColor_trim)
  have "parseHexToRgbChannels hex = Inr (r, g, b)"
    unfolding parseHexToRgbChannels_def t_def [symmetric] Let_def
    using v r(1) g(1) b(1) by (simp add: t slice_def)
  then show ?thesis using r g b by blast
qed

lemma parseHexToRgbChannels_invalid:
  "\<not> isValidHexColor hex \<Longrightarrow>
     parseHexToRgbChannels hex = Inl (Error ''Color must use 6-digit hex format.'')"
  by (simp add: parseHexToRgbChannels_def isValidHexColor_trim Let_def)

text \<open>The decoding of the source agrees with the table and the positional reading.\<close>

lemma isHexDigit_cases:
  assumes "isHexDigit c"
  shows "c = 48 \<or> c = 49 \<or> c = 50 \<or> c = 51 \<or> c = 52 \<or> c = 53 \<or> c = 54 \<or> c = 55 \<or>
         c = 56 \<or> c = 57 \<or> c = 97 \<or> c = 98 \<or> c = 99 \<or> c = 100 \<or> c = 101 \<or> c = 102 \<or>
         c = 65 \<or> c = 66 \<or> c = 67 \<or> c = 68 \<or> c = 69 \<or> c = 70"
  using assms unfolding isHexDigit_def by presburger

lemma spec_hex_digit_value:
  assumes "isHexDigit c"
  shows "spec_hex_digit c = Some (hexDigitValue c)"
  using isHexDigit_cases [OF assms]
  by (elim disjE) (simp_all add: spec_hex_digit_def hexDigitValue_def)

lemma spec_channel_pair:
  assumes "isHexDigit a" "isHexDigit b"
  shows "spec_channel a b = Some (16 * hexDigitValue a + hexDigitValue b)"
  by (simp add: spec_channel_def spec_hex_digit_value [OF assms(1)] spec_hex_digit_value [OF assms(2)])

lemma parseHexChannel_value:
  assumes "isHexDigit a" "isHexDigit b"
  shows "parseHexChannel [a, b] = Inr (16 * hexDigitValue a + hexDigitValue b)"
  by (simp add: parseHexChannel_def Number_parseInt16_pair [OF assms])

lemma trim_rest:
  "\<exists>rest. dropWhile isWhiteSpace s = trim s @ rest \<and> list_all isWhiteSpace rest"
proof -
  define a where "a = dropWhile isWhiteSpace s"
  have "rev a = takeWhile isWhiteSpace (rev a) @ dropWhile isWhiteSpace (rev a)" by simp
  then have "rev (rev a) =
      rev (takeWhile isWhiteSpace (rev a) @ dropWhile isWhiteSpace (rev a))"
    by (rule arg_cong)
  then have "a = rev (dropWhile isWhiteSpace (rev a)) @ rev (takeWhile isWhiteSpace (rev a))"
    by (simp only: rev_rev_ident rev_append)
  moreover have "list_all isWhiteSpace (rev (takeWhile isWhiteSpace (rev a)))"
    by (simp add: list_all_iff) (meson set_takeWhileD)
  ultimately show ?thesis unfolding trim_def a_def [symmetric] by blast
qed

lemma parseHexToRgbChannels_spec:
  assumes "isValidHexColor hex"
  shows "\<exists>r g b. parseHexToRgbChannels hex = Inr (r, g, b) \<and> spec_seed_channels hex = Some (r, g, b)
           \<and> 0 \<le> r \<and> r \<le> 255 \<and> 0 \<le> g \<and> g \<le> 255 \<and> 0 \<le> b \<and> b \<le> 255"
proof -
  define t where "t = trim hex"
  have len: "length t = 7" and h: "hd t = 35" and hx: "list_all isHexDigit (tl t)"
    using assms by (simp_all add: isValidHexColor_def t_def Let_def)
  from len obtain x0 x1 x2 x3 x4 x5 x6 where t: "t = [x0, x1, x2, x3, x4, x5, x6]"
    by (rule length_7E)
  have x0: "x0 = 35" using h by (simp add: t)
  have d: "isHexDigit x1" "isHexDigit x2" "isHexDigit x3" "isHexDigit x4" "isHexDigit x5" "isHexDigit x6"
    using hx by (simp_all add: t)
  define r where "r = 16 * hexDigitValue x1 + hexDigitValue x2"
  define g where "g = 16 * hexDigitValue x3 + hexDigitValue x4"
  define b where "b = 16 * hexDigitValue x5 + hexDigitValue x6"
  have pr: "parseHexChannel [x1, x2] = Inr r" "parseHexChannel [x3, x4] = Inr g"
      "parseHexChannel [x5, x6] = Inr b"
    unfolding r_def g_def b_def
    by (rule parseHexChannel_value [OF d(1) d(2)], rule parseHexChannel_value [OF d(3) d(4)],
        rule parseHexChannel_value [OF d(5) d(6)])
  have sp: "spec_channel x1 x2 = Some r" "spec_channel x3 x4 = Some g" "spec_channel x5 x6 = Some b"
    unfolding r_def g_def b_def
    by (rule spec_channel_pair [OF d(1) d(2)], rule spec_channel_pair [OF d(3) d(4)],
        rule spec_channel_pair [OF d(5) d(6)])
  have rng: "0 \<le> r" "r \<le> 255" "0 \<le> g" "g \<le> 255" "0 \<le> b" "b \<le> 255"
    unfolding r_def g_def b_def
    using hexDigitValue_range [OF d(1)] hexDigitValue_range [OF d(2)]
      hexDigitValue_range [OF d(3)] hexDigitValue_range [OF d(4)]
      hexDigitValue_range [OF d(5)] hexDigitValue_range [OF d(6)]
    by simp_all
  have v: "isValidHexColor t" using assms by (simp add: t_def isValidHexColor_trim)
  have 1: "parseHexToRgbChannels hex = Inr (r, g, b)"
    unfolding parseHexToRgbChannels_def t_def [symmetric] Let_def
    using v pr by (simp add: t slice_def)
  obtain rest where rest: "dropWhile isWhiteSpace hex = t @ rest" "list_all isWhiteSpace rest"
    using trim_rest [of hex] unfolding t_def by blast
  have 2: "spec_seed_channels hex = Some (r, g, b)"
    using rest(2) by (simp add: spec_seed_channels_def rest(1) t x0 sp)
  show ?thesis using 1 2 rng by blast
qed

lemma decimalDigits_1: "n < 10 \<Longrightarrow> decimalDigits n = [48 + n]"
  by (simp add: decimalDigits.simps)

lemma decimalDigits_2:
  assumes "10 \<le> n" "n < 100"
  shows "decimalDigits n = [48 + n div 10, 48 + n mod 10]"
proof -
  have "n div 10 < 10" using assms by simp
  then have "decimalDigits (n div 10) = [48 + n div 10]" by (rule decimalDigits_1)
  then show ?thesis using assms(1) by (subst decimalDigits.simps) simp
qed

lemma decimalDigits_3:
  assumes "100 \<le> n" "n < 1000"
  shows "decimalDigits n = [48 + n div 100, 48 + n div 10 mod 10, 48 + n mod 10]"
proof -
  have "10 \<le> n div 10" "n div 10 < 100" using assms by simp_all
  then have "decimalDigits (n div 10) = [48 + n div 10 div 10, 48 + n div 10 mod 10]"
    by (rule decimalDigits_2)
  moreover have "n div 10 div 10 = n div 100" by (simp add: div_mult2_eq)
  ultimately show ?thesis using assms(1) by (subst decimalDigits.simps) simp
qed

lemma Number_toString_spec:
  assumes "0 \<le> c" "c \<le> 255"
  shows "Number_toString c = spec_decimal c"
proof -
  have n: "nat c < 1000" using assms by simp
  consider "nat c < 10" | "10 \<le> nat c" "nat c < 100" | "100 \<le> nat c" by linarith
  then show ?thesis
  proof cases
    case 1
    then show ?thesis using assms by (simp add: Number_toString_def spec_decimal_def Let_def decimalDigits_1)
  next
    case 2
    then show ?thesis using assms by (simp add: Number_toString_def spec_decimal_def Let_def decimalDigits_2)
  next
    case 3
    then show ?thesis
      using assms n by (simp add: Number_toString_def spec_decimal_def Let_def decimalDigits_3)
  qed
qed

lemma toRgbTriplet_spec:
  assumes "0 \<le> r" "r \<le> 255" "0 \<le> g" "g \<le> 255" "0 \<le> b" "b \<le> 255"
  shows "toRgbTriplet (r, g, b) = spec_triplet (r, g, b)"
  using assms by (simp add: toRgbTriplet_def spec_triplet_def Number_toString_spec js_def)

subsection \<open>Palette tokens\<close>

lemma shadeHexColor_invalid:
  "\<not> isValidHexColor hex \<Longrightarrow>
     shadeHexColor hex m = Inl (Error ''Color must use 6-digit hex format.'')"
  by (simp add: shadeHexColor_def parseHexToRgbChannels_invalid)

lemma shadeHexColor_Inl:
  "shadeHexColor hex m = Inl e \<Longrightarrow>
     e = Error ''Color must use 6-digit hex format.'' \<and> \<not> isValidHexColor hex"
  using parseHexToRgbChannels_valid [of hex] parseHexToRgbChannels_invalid [of hex]
  by (cases "isValidHexColor hex") (auto simp: shadeHexColor_def)

lemma shadeHexColor_Inr: "shadeHexColor hex m = Inr x \<Longrightarrow> isValidHexColor hex"
  using shadeHexColor_invalid [of hex m] by (cases "isValidHexColor hex") auto

lemma shadeHexColor_lit_0:
  assumes "isValidHexColor hex"
  shows "\<exists>x. shadeHexColor hex lit_0 = Inr x \<and> spec_unmixed hex x"
proof -
  obtain r g b where p: "parseHexToRgbChannels hex = Inr (r, g, b)"
    and sp: "spec_seed_channels hex = Some (r, g, b)"
    and rng: "0 \<le> r" "r \<le> 255" "0 \<le> g" "g \<le> 255" "0 \<le> b" "b \<le> 255"
    using parseHexToRgbChannels_spec [OF assms] by blast
  have "shadeHexColor hex lit_0 = Inr (spec_triplet (r, g, b))"
    using rng
    by (simp add: shadeHexColor_def p lightenChannel_lit_0 spec_mix_channel_0 toRgbTriplet_spec)
  then show ?thesis by (simp add: spec_unmixed_def sp)
qed

lemma accentShades_invalid:
  "\<not> isValidHexColor hex \<Longrightarrow> accentShades hex = Inl (Error ''Color must use 6-digit hex format.'')"
  by (simp add: accentShades_def shadeHexColor_invalid)

lemma accentShades_Inl:
  "accentShades hex = Inl e \<Longrightarrow>
     e = Error ''Color must use 6-digit hex format.'' \<and> \<not> isValidHexColor hex"
  by (auto simp: accentShades_def split: sum.splits dest: shadeHexColor_Inl)

lemma accentShades_Inr: "accentShades hex = Inr x \<Longrightarrow> isValidHexColor hex"
  by (auto simp: accentShades_def split: sum.splits dest: shadeHexColor_Inr)

lemma accentShades_valid:
  assumes "isValidHexColor hex"
  shows "\<exists>s100 s80 s60. accentShades hex = Inr (s100, s80, s60) \<and> spec_accent_shades hex s100 s80 s60"
proof -
  obtain r g b where p: "parseHexToRgbChannels hex = Inr (r, g, b)"
    and sp: "spec_seed_channels hex = Some (r, g, b)"
    and rng: "0 \<le> r" "r \<le> 255" "0 \<le> g" "g \<le> 255" "0 \<le> b" "b \<le> 255"
    using parseHexToRgbChannels_spec [OF assms] by blast
  have ge1: "r \<le> spec_mix_channel (1 / 5) r" "g \<le> spec_mix_channel (1 / 5) g"
      "b \<le> spec_mix_channel (1 / 5) b"
    using spec_mix_channel_ge(1) [of r 1] spec_mix_channel_ge(1) [of g 1]
      spec_mix_channel_ge(1) [of b 1] rng by simp_all
  have ge2: "r \<le> spec_mix_channel (2 / 5) r" "g \<le> spec_mix_channel (2 / 5) g"
      "b \<le> spec_mix_channel (2 / 5) b"
    using spec_mix_channel_ge(1) [of r 2] spec_mix_channel_ge(1) [of g 2]
      spec_mix_channel_ge(1) [of b 2] rng by simp_all
  have le1: "spec_mix_channel (1 / 5) r \<le> 255" "spec_mix_channel (1 / 5) g \<le> 255"
      "spec_mix_channel (1 / 5) b \<le> 255"
    using spec_mix_channel_ge(2) [of r 1] spec_mix_channel_ge(2) [of g 1]
      spec_mix_channel_ge(2) [of b 1] rng by simp_all
  have le2: "spec_mix_channel (2 / 5) r \<le> 255" "spec_mix_channel (2 / 5) g \<le> 255"
      "spec_mix_channel (2 / 5) b \<le> 255"
    using spec_mix_channel_ge(2) [of r 2] spec_mix_channel_ge(2) [of g 2]
      spec_mix_channel_ge(2) [of b 2] rng by simp_all
  have t80: "toRgbTriplet
      (spec_mix_channel (1 / 5) r, spec_mix_channel (1 / 5) g, spec_mix_channel (1 / 5) b) =
    spec_triplet
      (spec_mix_channel (1 / 5) r, spec_mix_channel (1 / 5) g, spec_mix_channel (1 / 5) b)"
    using rng ge1 le1 by (intro toRgbTriplet_spec) simp_all
  have t60: "toRgbTriplet
      (spec_mix_channel (2 / 5) r, spec_mix_channel (2 / 5) g, spec_mix_channel (2 / 5) b) =
    spec_triplet
      (spec_mix_channel (2 / 5) r, spec_mix_channel (2 / 5) g, spec_mix_channel (2 / 5) b)"
    using rng ge2 le2 by (intro toRgbTriplet_spec) simp_all
  have t100: "toRgbTriplet (r, g, b) = spec_triplet (r, g, b)"
    using rng by (rule toRgbTriplet_spec)
  have "accentShades hex =
      Inr (spec_triplet (r, g, b),
           spec_triplet
             (spec_mix_channel (1 / 5) r, spec_mix_channel (1 / 5) g, spec_mix_channel (1 / 5) b),
           spec_triplet
             (spec_mix_channel (2 / 5) r, spec_mix_channel (2 / 5) g, spec_mix_channel (2 / 5) b))"
    using rng
    by (simp add: accentShades_def shadeHexColor_def p lightenChannel_lit_0 spec_mix_channel_0
        lightenChannel_lit_0_2 lightenChannel_lit_0_4 t80 t60 t100)
  then show ?thesis using ge1 ge2 by (simp add: spec_accent_shades_def sp)
qed

lemma generate_Inl:
  "generatePaletteTokensFromSeeds s = Inl e \<Longrightarrow>
     e = Error ''Color must use 6-digit hex format.'' \<and> \<not> allSeedsValid s"
  unfolding generatePaletteTokensFromSeeds_def bindE_def allSeedsValid_def
  by (auto split: sum.splits prod.splits dest: shadeHexColor_Inl accentShades_Inl)

lemma generate_Inr:
  "generatePaletteTokensFromSeeds s = Inr t \<Longrightarrow> allSeedsValid s"
  unfolding generatePaletteTokensFromSeeds_def bindE_def allSeedsValid_def
  by (auto split: sum.splits prod.splits dest: shadeHexColor_Inr accentShades_Inr)

text \<open>
  Claim C10. \<open>generatePaletteTokensFromSeeds\<close> returns tokens exactly when every one of
  the ten seeds, after trimming, matches the six-digit pattern \<open>#rrggbb\<close>: with all seeds
  valid it never throws, and as soon as one seed is invalid it throws
  "Color must use 6-digit hex format." (\<open>parseHexChannel\<close> never sees a channel it cannot
  parse).
\<close>

theorem generatePaletteTokensFromSeeds_total_iff:
  "(allSeedsValid s \<longrightarrow> (\<exists>t. generatePaletteTokensFromSeeds s = Inr t)) \<and>
   (\<not> allSeedsValid s \<longrightarrow>
      generatePaletteTokensFromSeeds s = Inl (Error ''Color must use 6-digit hex format.''))"
  using generate_Inl [of s] generate_Inr [of s]
  by (cases "generatePaletteTokensFromSeeds s") auto

lemma exampleSeeds_valid: "allSeedsValid exampleSeeds"
  by (simp add: allSeedsValid_def exampleSeeds_def isValidHexColor_def trim_def js_def
      isWhiteSpace_def isHexDigit_def)

lemma spec_mix_channel_20:
  "0 \<le> c \<Longrightarrow> c \<le> 255 \<Longrightarrow> spec_mix_channel (1 / 5) c = (8 * c + 515) div 10"
  using spec_mix_channel_fifths [of c 1] by (simp add: algebra_simps)

lemma spec_mix_channel_40:
  "0 \<le> c \<Longrightarrow> c \<le> 255 \<Longrightarrow> spec_mix_channel (2 / 5) c = (6 * c + 1025) div 10"
  using spec_mix_channel_fifths [of c 2] by (simp add: algebra_simps)

lemmas spec_seed_eval =
  spec_seed_channels_def spec_channel_def spec_hex_digit_def isWhiteSpace_def js_def

lemmas spec_triplet_eval = spec_triplet_def spec_decimal_def js_def

lemma spec_9ece6a: "spec_seed_channels (js ''#9ece6a'') = Some (158, 206, 106)"
  by (simp add: spec_seed_eval)

lemma spec_triplet_158_206_106: "spec_triplet (158, 206, 106) = js ''158, 206, 106''"
  by (simp add: spec_triplet_eval)

text \<open>
  Claim C6. The tokens are a function of the ten seeds alone. The channels of a seed are
  read from its notation \<open>#rrggbb\<close>, two hexadecimal digits of either case each, and a
  token is written as the three decimal numerals separated by a comma and a space. Each
  accent seed yields its unmixed triplet and the triplets of its 20% and 40% linear mixes
  toward white, each channel clamped to \<open>[0, 255]\<close> and rounded, so that every channel
  of the \<open>_80\<close> and \<open>_60\<close> shades is at least the channel of \<open>_100\<close>; the background
  and text seeds yield one unmixed triplet each, repeated as \<open>white\<close> and \<open>black\<close>;
  and the primary seed \<open>#9ece6a\<close> gives \<open>primary_100 = "158, 206, 106"\<close>. The double
  arithmetic of the source agrees with the exact mix on every channel value.
\<close>

theorem generatePaletteTokensFromSeeds_shades:
  assumes "allSeedsValid s"
  shows "\<exists>t. generatePaletteTokensFromSeeds s = Inr t \<and>
     spec_unmixed (background_seed_hex s) (background t) \<and> white t = background t \<and>
     spec_unmixed (text_seed_hex s) (text' t) \<and> black t = text' t \<and>
     spec_accent_shades (primary_seed_hex s) (primary_100 t) (primary_80 t) (primary_60 t) \<and>
     spec_accent_shades (secondary_seed_hex s) (secondary_100 t) (secondary_80 t) (secondary_60 t) \<and>
     spec_accent_shades (green_seed_hex s) (green_100 t) (green_80 t) (green_60 t) \<and>
     spec_accent_shades (red_seed_hex s) (red_100 t) (red_80 t) (red_60 t) \<and>
     spec_accent_shades (yellow_seed_hex s) (yellow_100 t) (yellow_80 t) (yellow_60 t) \<and>
     spec_accent_shades (blue_seed_hex s) (blue_100 t) (blue_80 t) (blue_60 t) \<and>
     spec_accent_shades (magenta_seed_hex s) (magenta_100 t) (magenta_80 t) (magenta_60 t) \<and>
     spec_accent_shades (cyan_seed_hex s) (cyan_100 t) (cyan_80 t) (cyan_60 t) \<and>
     (primary_seed_hex s = js ''#9ece6a'' \<longrightarrow> primary_100 t = js ''158, 206, 106'')"
proof -
  have v: "isValidHexColor (background_seed_hex s)" "isValidHexColor (text_seed_hex s)"
    "isValidHexColor (primary_seed_hex s)" "isValidHexColor (secondary_seed_hex s)"
    "isValidHexColor (green_seed_hex s)" "isValidHexColor (red_seed_hex s)"
    "isValidHexColor (yellow_seed_hex s)" "isValidHexColor (blue_seed_hex s)"
    "isValidHexColor (magenta_seed_hex s)" "isValidHexColor (cyan_seed_hex s)"
    using assms by (simp_all add: allSeedsValid_def)
  obtain bg where bg: "shadeHexColor (background_seed_hex s) lit_0 = Inr bg"
      "spec_unmixed (background_seed_hex s) bg"
    using shadeHexColor_lit_0 [OF v(1)] by blast
  obtain tx where tx: "shadeHexColor (text_seed_hex s) lit_0 = Inr tx"
      "spec_unmixed (text_seed_hex s) tx"
    using shadeHexColor_lit_0 [OF v(2)] by blast
  obtain p1 p2 p3 where p: "accentShades (primary_seed_hex s) = Inr (p1, p2, p3)"
      "spec_accent_shades (primary_seed_hex s) p1 p2 p3"
    using accentShades_valid [OF v(3)] by blast
  obtain s1 s2 s3 where sc: "accentShades (secondary_seed_hex s) = Inr (s1, s2, s3)"
      "spec_accent_shades (secondary_seed_hex s) s1 s2 s3"
    using accentShades_valid [OF v(4)] by blast
  obtain g1 g2 g3 where g: "accentShades (green_seed_hex s) = Inr (g1, g2, g3)"
      "spec_accent_shades (green_seed_hex s) g1 g2 g3"
    using accentShades_valid [OF v(5)] by blast
  obtain r1 r2 r3 where r: "accentShades (red_seed_hex s) = Inr (r1, r2, r3)"
      "spec_accent_shades (red_seed_hex s) r1 r2 r3"
    using accentShades_valid [OF v(6)] by blast
  obtain y1 y2 y3 where y: "accentShades (yellow_seed_hex s) = Inr (y1, y2, y3)"
      "spec_accent_shades (yellow_seed_hex s) y1 y2 y3"
    using accentShades_valid [OF v(7)] by blast
  obtain b1 b2 b3 where b: "accentShades (blue_seed_hex s) = Inr (b1, b2, b3)"
      "spec_accent_shades (blue_seed_hex s) b1 b2 b3"
    using accentShades_valid [OF v(8)] by blast
  obtain m1 m2 m3 where m: "accentShades (magenta_seed_hex s) = Inr (m1, m2, m3)"
      "spec_accent_shades (magenta_seed_hex s) m1 m2 m3"
    using accentShades_valid [OF v(9)] by blast
  obtain c1 c2 c3 where c: "accentShades (cyan_seed_hex s) = Inr (c1, c2, c3)"
      "spec_accent_shades (cyan_seed_hex s) c1 c2 c3"
    using accentShades_valid [OF v(10)] by blast
  have ex: "primary_seed_hex s = js ''#9ece6a'' \<longrightarrow> p1 = js ''158, 206, 106''"
    using p(2) by (auto simp: spec_accent_shades_def spec_9ece6a spec_triplet_158_206_106)
  show ?thesis
    unfolding generatePaletteTokensFromSeeds_def
    using bg(2) tx(2) p(2) sc(2) g(2) r(2) y(2) b(2) m(2) c(2) ex
    by (simp add: bindE_def bg(1) tx(1) p(1) sc(1) g(1) r(1) y(1) b(1) m(1) c(1))
qed

lemma paddedSeeds_valid: "allSeedsValid paddedSeeds"
  by (simp add: allSeedsValid_def paddedSeeds_def exampleSeeds_def isValidHexColor_def trim_def
      js_def isWhiteSpace_def isHexDigit_def)

lemma spec_336699: "spec_seed_channels (js ''#336699'') = Some (51, 102, 153)"
  by (simp add: spec_seed_eval)

lemma spec_padded_FFFFFF: "spec_seed_channels (js '' #FFFFFF '') = Some (255, 255, 255)"
  by (simp add: spec_seed_eval)

lemma green_triplets:
  "spec_triplet (51, 102, 153) = js ''51, 102, 153''"
  "spec_triplet (spec_mix_channel (1 / 5) 51, spec_mix_channel (1 / 5) 102, spec_mix_channel (1 / 5) 153)
     = js ''92, 133, 173''"
  "spec_triplet (spec_mix_channel (2 / 5) 51, spec_mix_channel (2 / 5) 102, spec_mix_channel (2 / 5) 153)
     = js ''133, 163, 194''"
  "spec_triplet (255, 255, 255) = js ''255, 255, 255''"
  by (simp_all add: spec_mix_channel_20 spec_mix_channel_40 spec_triplet_eval)

theorem generatePaletteTokensFromSeeds_shades_witness:
  "allSeedsValid exampleSeeds \<and>
   (\<exists>t. generatePaletteTokensFromSeeds exampleSeeds = Inr t \<and>
        primary_100 t = js ''158, 206, 106'' \<and> green_100 t = js ''51, 102, 153'' \<and>
        green_80 t = js ''92, 133, 173'' \<and> green_60 t = js ''133, 163, 194'') \<and>
   allSeedsValid paddedSeeds \<and>
   (\<exists>t. generatePaletteTokensFromSeeds paddedSeeds = Inr t \<and>
        background t = js ''255, 255, 255'' \<and> white t = js ''255, 255, 255'')"
proof -
  obtain t where t: "generatePaletteTokensFromSeeds exampleSeeds = Inr t"
      "spec_accent_shades (green_seed_hex exampleSeeds) (green_100 t) (green_80 t) (green_60 t)"
      "primary_seed_hex exampleSeeds = js ''#9ece6a'' \<longrightarrow> primary_100 t = js ''158, 206, 106''"
    using generatePaletteTokensFromSeeds_shades [OF exampleSeeds_valid] by blast
  have "primary_100 t = js ''158, 206, 106''" using t(3) by (simp add: exampleSeeds_def)
  moreover have "green_100 t = js ''51, 102, 153'' \<and> green_80 t = js ''92, 133, 173'' \<and>
      green_60 t = js ''133, 163, 194''"
    using t(2) by (simp add: exampleSeeds_def spec_accent_shades_def spec_336699 green_triplets)
  ultimately have 1: "\<exists>t. generatePaletteTokensFromSeeds exampleSeeds = Inr t \<and>
        primary_100 t = js ''158, 206, 106'' \<and> green_100 t = js ''51, 102, 153'' \<and>
        green_80 t = js ''92, 133, 173'' \<and> green_60 t = js ''133, 163, 194''"
    using t(1) by blast
  obtain u where u: "generatePaletteTokensFromSeeds paddedSeeds = Inr u"
      "spec_unmixed (background_seed_hex paddedSeeds) (background u)" "white u = background u"
    using generatePaletteTokensFromSeeds_shades [OF paddedSeeds_valid] by blast
  have "background u = js ''255, 255, 255''"
    using u(2) by (simp add: paddedSeeds_def spec_unmixed_def spec_padded_FFFFFF green_triplets)
  then have 2: "\<exists>t. generatePaletteTokensFromSeeds paddedSeeds = Inr t \<and>
        background t = js ''255, 255, 255'' \<and> white t = js ''255, 255, 255''"
    using u(1) u(3) by simp
  show ?thesis using exampleSeeds_valid paddedSeeds_valid 1 2 by (intro conjI)
qed

theorem generatePaletteTokensFromSeeds_total_iff_witness:
  "allSeedsValid exampleSeeds \<and> (\<exists>t. generatePaletteTokensFromSeeds exampleSeeds = Inr t) \<and>
   \<not> allSeedsValid brokenSeeds \<and>
   generatePaletteTokensFromSeeds brokenSeeds = Inl (Error ''Color must use 6-digit hex format.'')"
proof -
  have "\<not> isValidHexColor (js ''#00838'')"
    by (simp add: isValidHexColor_def trim_def js_def isWhiteSpace_def)
  then have b: "\<not> allSeedsValid brokenSeeds"
    by (simp add: allSeedsValid_def brokenSeeds_def)
  show ?thesis
    using generatePaletteTokensFromSeeds_total_iff [of exampleSeeds]
      generatePaletteTokensFromSeeds_total_iff [of brokenSeeds] exampleSeeds_valid b
    by blast
qed

subsection \<open>Stored preferences\<close>

lemmas parse_fuel_numeral =
  parse_value.simps(2) [of "pred_numeral k" for k, folded numeral_eq_Suc]
  parse_elements.simps(2) [of "pred_numeral k" for k, folded numeral_eq_Suc]
  parse_members.simps(2) [of "pred_numeral k" for k, folded numeral_eq_Suc]

lemmas json_eval =
  JSON_parse_def js_def skipWS_def isJsonWhiteSpace_def parse_fuel_numeral isHexDigit_def
  unescape_def parse_number_def parse_fraction_def parse_exponent_def isDigit_def hexValue_def
  hexDigitValue_def

lemmas stringify_eval =
  JSON_stringify_preferences_def Let_def QuoteJSONString_def quoteUnit_def isHighSurrogate_def
  isLowSurrogate_def js_def

lemma validMode_cases:
  "isThemeMode (Some (JString m)) \<longleftrightarrow> m = js ''system'' \<or> m = js ''light'' \<or> m = js ''dark''"
  by (auto simp: isThemeMode_def)

lemma validPalette_cases:
  "isColorPalette (Str p) \<longleftrightarrow> p = js ''catppuccin'' \<or> p = js ''tokyo-night'' \<or> p = js ''everforest''"
  by (auto simp: isColorPalette_def COLOR_PALETTES_def)

lemma parse_stringify_ModeFirst:
  assumes "isThemeMode (Some (JString m))" "isColorPalette (Str p)"
  shows "JSON_parse (JSON_stringify_preferences ModeFirst \<lparr> mode = m, palette = p \<rparr>)
           = Inr (JObject [(js ''mode'', JString m), (js ''palette'', JString p)])"
proof -
  have m: "m = js ''system'' \<or> m = js ''light'' \<or> m = js ''dark''"
    using assms(1) by (simp only: validMode_cases)
  have p: "p = js ''catppuccin'' \<or> p = js ''tokyo-night'' \<or> p = js ''everforest''"
    using assms(2) by (simp only: validPalette_cases)
  from m p show ?thesis
    by (elim disjE) (simp_all add: stringify_eval json_eval)
qed

lemma parse_stringify_PaletteFirst:
  assumes "isThemeMode (Some (JString m))" "isColorPalette (Str p)"
  shows "JSON_parse (JSON_stringify_preferences PaletteFirst \<lparr> mode = m, palette = p \<rparr>)
           = Inr (JObject [(js ''palette'', JString p), (js ''mode'', JString m)])"
proof -
  have m: "m = js ''system'' \<or> m = js ''light'' \<or> m = js ''dark''"
    using assms(1) by (simp only: validMode_cases)
  have p: "p = js ''catppuccin'' \<or> p = js ''tokyo-night'' \<or> p = js ''everforest''"
    using assms(2) by (simp only: validPalette_cases)
  from m p show ?thesis
    by (elim disjE) (simp_all add: stringify_eval json_eval)
qed

lemma parse_stringify_valid:
  assumes "isThemeMode (Some (JString m))" "isColorPalette (Str p)"
  shows "JSON_parse (JSON_stringify_preferences order \<lparr> mode = m, palette = p \<rparr>)
           = Inr (storedObject order m p)"
  using parse_stringify_ModeFirst [OF assms] parse_stringify_PaletteFirst [OF assms]
  by (cases order) simp_all

lemma unknownModeText_parse:
  "JSON_parse unknownModeText =
     Inr (JObject [(js ''mode'', JString (js ''sepia'')), (js ''palette'', JString (js ''catppuccin''))])"
  by (simp add: unknownModeText_def json_eval)

lemma legacyText_parse:
  "JSON_parse legacyText =
     Inr (JObject [(js ''mode'', JString (js ''dark'')), (js ''palette'', JString (js ''sunset''))])"
  by (simp add: legacyText_def json_eval)

lemma malformed: "JSON_parse (js ''{not-json'') = Inl SyntaxError"
  by (simp add: json_eval)

lemma LEGACY_current_each:
  "LEGACY_COLOR_PALETTE_MAP (js ''catppuccin'') = Undefined"
  "LEGACY_COLOR_PALETTE_MAP (js ''tokyo-night'') = Undefined"
  "LEGACY_COLOR_PALETTE_MAP (js ''everforest'') = Undefined"
  by (simp_all add: LEGACY_COLOR_PALETTE_MAP_def Object_prototype_names_def js_def)

lemma LEGACY_current:
  "p \<in> set COLOR_PALETTES \<Longrightarrow> LEGACY_COLOR_PALETTE_MAP p = Undefined"
  using LEGACY_current_each by (auto simp: COLOR_PALETTES_def)

lemma LEGACY_renames:
  "LEGACY_COLOR_PALETTE_MAP (js ''sunset'') = Str (js ''catppuccin'')"
  "LEGACY_COLOR_PALETTE_MAP (js ''default'') = Str (js ''tokyo-night'')"
  "LEGACY_COLOR_PALETTE_MAP (js ''forest'') = Str (js ''everforest'')"
  by (simp_all add: LEGACY_COLOR_PALETTE_MAP_def js_def)

lemma COLOR_PALETTES_nonempty: "p \<in> set COLOR_PALETTES \<Longrightarrow> p \<noteq> []"
  by (auto simp: COLOR_PALETTES_def js_def)

lemma COLOR_PALETTES_mem:
  "js ''catppuccin'' \<in> set COLOR_PALETTES" "js ''tokyo-night'' \<in> set COLOR_PALETTES"
  "js ''everforest'' \<in> set COLOR_PALETTES"
  by (simp_all add: COLOR_PALETTES_def)

lemma parseStoredPreferences_palette_eq:
  assumes "getProperty v (js ''palette'') = Some (JString p)" "p \<noteq> []"
    and "LEGACY_COLOR_PALETTE_MAP p = Str q \<or> (LEGACY_COLOR_PALETTE_MAP p = Undefined \<and> q = p)"
    and "q \<in> set COLOR_PALETTES"
  shows "palette (parseStoredPreferences v) = q"
proof -
  have r: "isRecord v" using assms(1) by (cases v) simp_all
  show ?thesis
    using assms(3, 4)
    by (elim disjE conjE)
      (simp_all add: parseStoredPreferences_def Let_def r assms(1,2) isColorPalette_def)
qed

lemma parseStoredPreferences_palette:
  assumes "getProperty v (js ''palette'') = Some (JString p)"
  shows "(p = js ''sunset'' \<longrightarrow> palette (parseStoredPreferences v) = js ''catppuccin'') \<and>
         (p = js ''default'' \<longrightarrow> palette (parseStoredPreferences v) = js ''tokyo-night'') \<and>
         (p = js ''forest'' \<longrightarrow> palette (parseStoredPreferences v) = js ''everforest'') \<and>
         (p \<in> set COLOR_PALETTES \<longrightarrow> palette (parseStoredPreferences v) = p)"
proof (intro conjI impI)
  have ne: "js ''sunset'' \<noteq> []" "js ''default'' \<noteq> []" "js ''forest'' \<noteq> []"
    by (simp_all add: js_def)
  { assume "p = js ''sunset''"
    then show "palette (parseStoredPreferences v) = js ''catppuccin''"
      using assms ne(1) LEGACY_renames(1) COLOR_PALETTES_mem(1)
      by (intro parseStoredPreferences_palette_eq [of v p]) simp_all }
  { assume "p = js ''default''"
    then show "palette (parseStoredPreferences v) = js ''tokyo-night''"
      using assms ne(2) LEGACY_renames(2) COLOR_PALETTES_mem(2)
      by (intro parseStoredPreferences_palette_eq [of v p]) simp_all }
  { assume "p = js ''forest''"
    then show "palette (parseStoredPreferences v) = js ''everforest''"
      using assms ne(3) LEGACY_renames(3) COLOR_PALETTES_mem(3)
      by (intro parseStoredPreferences_palette_eq [of v p]) simp_all }
  { assume "p \<in> set COLOR_PALETTES"
    then show "palette (parseStoredPreferences v) = p"
      using assms LEGACY_current [of p] COLOR_PALETTES_nonempty [of p]
      by (intro parseStoredPreferences_palette_eq [of v p]) simp_all }
qed

lemma parseStoredPreferences_valid:
  assumes "isThemeMode (Some (JString m))" "isColorPalette (Str p)"
  shows "parseStoredPreferences (storedObject order m p) = \<lparr> mode = m, palette = p \<rparr>"
proof -
  have p: "p \<in> set COLOR_PALETTES" using assms(2) by (simp add: isColorPalette_def)
  have k: "js ''palette'' \<noteq> js ''mode''" "js ''mode'' \<noteq> js ''palette''" by (simp_all add: js_def)
  show ?thesis
    using assms p k
    by (cases order)
      (simp_all add: parseStoredPreferences_def Let_def LEGACY_current COLOR_PALETTES_nonempty)
qed

lemma getProperty_not_record: "\<not> isRecord v \<Longrightarrow> getProperty v key = None"
  by (cases v) simp_all

lemma parseStoredPreferences_palette_other:
  assumes "isRecord v" "getProperty v (js ''palette'') = Some (JString p)"
    and "p \<notin> set COLOR_PALETTES"
    and "p \<noteq> js ''sunset''" "p \<noteq> js ''default''" "p \<noteq> js ''forest''"
  shows "palette (parseStoredPreferences v) = js ''tokyo-night''"
proof -
  have l: "LEGACY_COLOR_PALETTE_MAP p = Inherited \<or> LEGACY_COLOR_PALETTE_MAP p = Undefined"
    using assms(4-6) by (simp add: LEGACY_COLOR_PALETTE_MAP_def)
  then show ?thesis
    using assms(1-3)
    by (elim disjE)
      (simp_all add: parseStoredPreferences_def Let_def isColorPalette_def
        DEFAULT_APPEARANCE_PREFERENCES_def)
qed

lemma parseStoredPreferences_palette_missing:
  assumes "\<And>p. getProperty v (js ''palette'') \<noteq> Some (JString p)"
  shows "palette (parseStoredPreferences v) = js ''tokyo-night''"
proof (cases "getProperty v (js ''palette'')")
  case None
  then show ?thesis
    by (simp add: parseStoredPreferences_def Let_def isColorPalette_def
        DEFAULT_APPEARANCE_PREFERENCES_def)
next
  case (Some j)
  then show ?thesis
    using assms
    by (cases j)
      (simp_all add: parseStoredPreferences_def Let_def isColorPalette_def
        DEFAULT_APPEARANCE_PREFERENCES_def)
qed

lemma legacy_not_current:
  "js ''sunset'' \<notin> set COLOR_PALETTES" "js ''default'' \<notin> set COLOR_PALETTES"
  "js ''forest'' \<notin> set COLOR_PALETTES"
  by (simp_all add: COLOR_PALETTES_def js_def)

lemma spec_stored_palette_cases:
  "p \<in> set COLOR_PALETTES \<Longrightarrow> spec_stored_palette (Some (JString p)) = p"
  "spec_stored_palette (Some (JString (js ''sunset''))) = js ''catppuccin''"
  "spec_stored_palette (Some (JString (js ''default''))) = js ''tokyo-night''"
  "spec_stored_palette (Some (JString (js ''forest''))) = js ''everforest''"
  "p \<notin> set COLOR_PALETTES \<Longrightarrow> p \<noteq> js ''sunset'' \<Longrightarrow> p \<noteq> js ''default'' \<Longrightarrow>
     p \<noteq> js ''forest'' \<Longrightarrow> spec_stored_palette (Some (JString p)) = js ''tokyo-night''"
  by (auto simp: spec_stored_palette_def COLOR_PALETTES_def js_def)

lemma parseStoredPreferences_palette_spec:
  "palette (parseStoredPreferences v) = spec_stored_palette (getProperty v (js ''palette''))"
proof (cases "\<exists>p. getProperty v (js ''palette'') = Some (JString p)")
  case False
  then have n: "\<And>p. getProperty v (js ''palette'') \<noteq> Some (JString p)" by simp
  have "spec_stored_palette (getProperty v (js ''palette'')) = js ''tokyo-night''"
  proof (cases "getProperty v (js ''palette'')")
    case None
    then show ?thesis by (simp add: spec_stored_palette_def)
  next
    case (Some j)
    then show ?thesis using n by (cases j) (simp_all add: spec_stored_palette_def)
  qed
  then show ?thesis using parseStoredPreferences_palette_missing [OF n] by simp
next
  case True
  then obtain p where p: "getProperty v (js ''palette'') = Some (JString p)" by blast
  then have r: "isRecord v" using getProperty_not_record [of v "js ''palette''"] by auto
  note known = parseStoredPreferences_palette [OF p]
  consider (current) "p \<in> set COLOR_PALETTES" | (sunset) "p = js ''sunset''"
    | (default) "p = js ''default''" | (forest) "p = js ''forest''"
    | (other) "p \<notin> set COLOR_PALETTES" "p \<noteq> js ''sunset''" "p \<noteq> js ''default''"
        "p \<noteq> js ''forest''"
    by blast
  then show ?thesis
  proof cases
    case current
    then show ?thesis using known by (simp add: p spec_stored_palette_cases(1))
  next
    case sunset
    then show ?thesis using known by (simp add: p spec_stored_palette_cases(2))
  next
    case default
    then show ?thesis using known by (simp add: p spec_stored_palette_cases(3))
  next
    case forest
    then show ?thesis using known by (simp add: p spec_stored_palette_cases(4))
  next
    case other
    then show ?thesis
      using parseStoredPreferences_palette_other [OF r p]
      by (simp add: p spec_stored_palette_cases(5))
  qed
qed

lemma parseStoredPreferences_unknown_mode:
  "\<not> isThemeMode (getProperty v (js ''mode'')) \<Longrightarrow> mode (parseStoredPreferences v) = js ''system''"
  by (simp add: parseStoredPreferences_def Let_def DEFAULT_APPEARANCE_PREFERENCES_def)

lemma load_holding:
  assumes "getItem st APPEARANCE_STORAGE_KEY = Inr (Some raw)" "raw \<noteq> []" "JSON_parse raw = Inr v"
  shows "loadAppearancePreferences (Some st) = Inr (parseStoredPreferences v)"
  using assms by (simp add: loadAppearancePreferences_def loadAppearancePreferences_try_def)

lemma load_never_throws: "\<exists>prefs. loadAppearancePreferences storage = Inr prefs"
  by (auto simp: loadAppearancePreferences_def split: option.splits sum.splits)

lemma load_defaults:
  assumes "getItem st APPEARANCE_STORAGE_KEY = Inl e \<or>
           getItem st APPEARANCE_STORAGE_KEY = Inr None \<or>
           getItem st APPEARANCE_STORAGE_KEY = Inr (Some []) \<or>
           (getItem st APPEARANCE_STORAGE_KEY = Inr (Some raw) \<and> JSON_parse raw = Inl e)"
  shows "loadAppearancePreferences (Some st) = Inr DEFAULT_APPEARANCE_PREFERENCES"
  using assms by (auto simp: loadAppearancePreferences_def loadAppearancePreferences_try_def)

lemma stringify_nonempty: "JSON_stringify_preferences order P \<noteq> []"
  by (cases order) (simp_all add: JSON_stringify_preferences_def Let_def js_def)

lemma persist_then_load:
  fixes P :: AppearancePreferences
  assumes "isThemeMode (Some (JString (mode P)))" "isColorPalette (Str (palette P))"
    and "\<not> getItem_throws st"
    and "\<not> setItem_throws st APPEARANCE_STORAGE_KEY (JSON_stringify_preferences order P)"
  shows "\<exists>st'. persistAppearancePreferences order P (Some st) = Inr (Some st') \<and>
               loadAppearancePreferences (Some st') = Inr P"
proof -
  define st' where
    "st' = st \<lparr> items := (items st)(APPEARANCE_STORAGE_KEY \<mapsto> JSON_stringify_preferences order P) \<rparr>"
  have w: "persistAppearancePreferences order P (Some st) = Inr (Some st')"
    using assms(4) by (simp add: persistAppearancePreferences_def setItem_def st'_def)
  have g: "getItem st' APPEARANCE_STORAGE_KEY = Inr (Some (JSON_stringify_preferences order P))"
    using assms(3) by (simp add: getItem_def st'_def)
  have "JSON_stringify_preferences order P =
      JSON_stringify_preferences order \<lparr> mode = mode P, palette = palette P \<rparr>"
    by (simp add: JSON_stringify_preferences_def)
  then have "JSON_parse (JSON_stringify_preferences order P) =
      Inr (storedObject order (mode P) (palette P))"
    using parse_stringify_valid [OF assms(1) assms(2)] by (simp only:)
  then have "loadAppearancePreferences (Some st') =
      Inr (parseStoredPreferences (storedObject order (mode P) (palette P)))"
    using g stringify_nonempty by (rule load_holding [rotated 2])
  then have "loadAppearancePreferences (Some st') = Inr P"
    using parseStoredPreferences_valid [OF assms(1) assms(2)] by simp
  with w show ?thesis by blast
qed

text \<open>
  Claim C5, as the code has it. \<open>loadAppearancePreferences\<close> never throws. It returns
  the defaults (mode \<open>system\<close>, palette \<open>tokyo-night\<close>) when there is no storage, when
  reading throws, and when the stored text is absent, empty or not JSON. When the stored
  value carries an unknown mode, the mode falls back to \<open>system\<close> and the palette is
  decided on its own, from the stored palette: a current identifier is kept, a legacy
  identifier is renamed, anything else gives \<open>tokyo-night\<close>. And for every valid
  preference \<open>P\<close>, with its properties in either order, loading after persisting \<open>P\<close>
  into a storage that accepts the write and can be read gives \<open>P\<close> back.
\<close>

theorem loadAppearancePreferences_defaults_and_roundtrip:
  fixes P :: AppearancePreferences
  shows
  "(\<exists>prefs. loadAppearancePreferences storage = Inr prefs) \<and>
   loadAppearancePreferences None = Inr DEFAULT_APPEARANCE_PREFERENCES \<and>
   (getItem st1 APPEARANCE_STORAGE_KEY = Inl e \<or>
    getItem st1 APPEARANCE_STORAGE_KEY = Inr None \<or>
    getItem st1 APPEARANCE_STORAGE_KEY = Inr (Some []) \<or>
    (getItem st1 APPEARANCE_STORAGE_KEY = Inr (Some raw1) \<and> JSON_parse raw1 = Inl e)
      \<longrightarrow> loadAppearancePreferences (Some st1) = Inr DEFAULT_APPEARANCE_PREFERENCES) \<and>
   (getItem st2 APPEARANCE_STORAGE_KEY = Inr (Some raw2) \<and> raw2 \<noteq> [] \<and>
    JSON_parse raw2 = Inr v \<and> \<not> isThemeMode (getProperty v (js ''mode''))
      \<longrightarrow> loadAppearancePreferences (Some st2) =
            Inr \<lparr> mode = js ''system'',
                  palette = spec_stored_palette (getProperty v (js ''palette'')) \<rparr>) \<and>
   (isThemeMode (Some (JString (mode P))) \<and> isColorPalette (Str (palette P)) \<and>
    \<not> getItem_throws st3 \<and>
    \<not> setItem_throws st3 APPEARANCE_STORAGE_KEY (JSON_stringify_preferences order P)
      \<longrightarrow> (\<exists>st'. persistAppearancePreferences order P (Some st3) = Inr (Some st') \<and>
             loadAppearancePreferences (Some st') = Inr P)) \<and>
   DEFAULT_APPEARANCE_PREFERENCES = \<lparr> mode = js ''system'', palette = js ''tokyo-night'' \<rparr>"
proof (intro conjI impI)
  show "\<exists>prefs. loadAppearancePreferences storage = Inr prefs" by (rule load_never_throws)
  show "loadAppearancePreferences None = Inr DEFAULT_APPEARANCE_PREFERENCES"
    by (simp add: loadAppearancePreferences_def)
next
  assume "getItem st1 APPEARANCE_STORAGE_KEY = Inl e \<or>
    getItem st1 APPEARANCE_STORAGE_KEY = Inr None \<or>
    getItem st1 APPEARANCE_STORAGE_KEY = Inr (Some []) \<or>
    (getItem st1 APPEARANCE_STORAGE_KEY = Inr (Some raw1) \<and> JSON_parse raw1 = Inl e)"
  then show "loadAppearancePreferences (Some st1) = Inr DEFAULT_APPEARANCE_PREFERENCES"
    by (rule load_defaults)
next
  assume a: "getItem st2 APPEARANCE_STORAGE_KEY = Inr (Some raw2) \<and> raw2 \<noteq> [] \<and>
    JSON_parse raw2 = Inr v \<and> \<not> isThemeMode (getProperty v (js ''mode''))"
  then have l: "loadAppearancePreferences (Some st2) = Inr (parseStoredPreferences v)"
    by (auto intro: load_holding)
  have m: "mode (parseStoredPreferences v) = js ''system''"
    using a by (intro parseStoredPreferences_unknown_mode) simp
  have "parseStoredPreferences v =
      \<lparr> mode = js ''system'', palette = spec_stored_palette (getProperty v (js ''palette'')) \<rparr>"
    using m parseStoredPreferences_palette_spec [of v] by (cases "parseStoredPreferences v") simp
  then show "loadAppearancePreferences (Some st2) =
            Inr \<lparr> mode = js ''system'',
                  palette = spec_stored_palette (getProperty v (js ''palette'')) \<rparr>"
    using l by simp
next
  assume "isThemeMode (Some (JString (mode P))) \<and> isColorPalette (Str (palette P)) \<and>
    \<not> getItem_throws st3 \<and>
    \<not> setItem_throws st3 APPEARANCE_STORAGE_KEY (JSON_stringify_preferences order P)"
  then show "\<exists>st'. persistAppearancePreferences order P (Some st3) = Inr (Some st') \<and>
             loadAppearancePreferences (Some st') = Inr P"
    using persist_then_load [of P st3 order] by simp
next
  show "DEFAULT_APPEARANCE_PREFERENCES = \<lparr> mode = js ''system'', palette = js ''tokyo-night'' \<rparr>"
    by (simp add: DEFAULT_APPEARANCE_PREFERENCES_def)
qed

lemma getItem_storageHolding:
  "getItem (storageHolding raw) APPEARANCE_STORAGE_KEY = Inr (Some raw)"
  by (simp add: getItem_def storageHolding_def memoryStorage_def)

lemma unknownModeText_nonempty: "unknownModeText \<noteq> []"
  by (simp add: unknownModeText_def js_def)

lemma unknownBothText_nonempty: "unknownBothText \<noteq> []"
  by (simp add: unknownBothText_def js_def)

lemma unknownBothText_parse:
  "JSON_parse unknownBothText =
     Inr (JObject [(js ''mode'', JString (js ''sepia'')), (js ''palette'', JString (js ''bogus''))])"
  by (simp add: unknownBothText_def json_eval)

lemma legacyText_nonempty: "legacyText \<noteq> []"
  by (simp add: legacyText_def js_def)

lemma sepia_not_mode: "\<not> isThemeMode (Some (JString (js ''sepia'')))"
  by (simp add: isThemeMode_def js_def)

lemma key_distinct: "js ''palette'' \<noteq> js ''mode''"
  by (simp add: js_def)

lemma dark_catppuccin_valid:
  "isThemeMode (Some (JString (js ''dark'')))" "isColorPalette (Str (js ''catppuccin''))"
  by (simp_all add: isThemeMode_def isColorPalette_def COLOR_PALETTES_def)

lemma spec_stored_palette_examples:
  "spec_stored_palette (Some (JString (js ''catppuccin''))) = js ''catppuccin''"
  "spec_stored_palette (Some (JString (js ''bogus''))) = js ''tokyo-night''"
  by (simp_all add: spec_stored_palette_def js_def)

theorem loadAppearancePreferences_defaults_and_roundtrip_witness:
  "loadAppearancePreferences (Some (memoryStorage Map.empty)) = Inr DEFAULT_APPEARANCE_PREFERENCES \<and>
   loadAppearancePreferences (Some (storageHolding (js ''{not-json''))) =
     Inr DEFAULT_APPEARANCE_PREFERENCES \<and>
   loadAppearancePreferences (Some (storageHolding unknownModeText)) =
     Inr \<lparr> mode = js ''system'', palette = js ''catppuccin'' \<rparr> \<and>
   loadAppearancePreferences (Some (storageHolding unknownBothText)) =
     Inr \<lparr> mode = js ''system'', palette = js ''tokyo-night'' \<rparr> \<and>
   (\<exists>st'. persistAppearancePreferences ModeFirst \<lparr> mode = js ''dark'', palette = js ''catppuccin'' \<rparr>
             (Some (memoryStorage Map.empty)) = Inr (Some st') \<and>
          loadAppearancePreferences (Some st') =
            Inr \<lparr> mode = js ''dark'', palette = js ''catppuccin'' \<rparr>) \<and>
   (\<exists>st'. persistAppearancePreferences PaletteFirst \<lparr> mode = js ''dark'', palette = js ''catppuccin'' \<rparr>
             (Some (memoryStorage Map.empty)) = Inr (Some st') \<and>
          loadAppearancePreferences (Some st') =
            Inr \<lparr> mode = js ''dark'', palette = js ''catppuccin'' \<rparr>)"
proof -
  let ?P = "\<lparr> mode = js ''dark'', palette = js ''catppuccin'' \<rparr>"
  let ?v = "JObject [(js ''mode'', JString (js ''sepia'')), (js ''palette'', JString (js ''catppuccin''))]"
  let ?w = "JObject [(js ''mode'', JString (js ''sepia'')), (js ''palette'', JString (js ''bogus''))]"
  have e: "getItem (memoryStorage Map.empty) APPEARANCE_STORAGE_KEY = Inr None"
    by (simp add: getItem_def memoryStorage_def)
  have m: "getItem (storageHolding (js ''{not-json'')) APPEARANCE_STORAGE_KEY =
             Inr (Some (js ''{not-json'')) \<and> JSON_parse (js ''{not-json'') = Inl SyntaxError"
    by (simp add: getItem_storageHolding malformed)
  have u: "getItem (storageHolding unknownModeText) APPEARANCE_STORAGE_KEY = Inr (Some unknownModeText)
      \<and> unknownModeText \<noteq> [] \<and> JSON_parse unknownModeText = Inr ?v
      \<and> \<not> isThemeMode (getProperty ?v (js ''mode''))"
    using key_distinct
    by (simp add: getItem_storageHolding unknownModeText_nonempty unknownModeText_parse sepia_not_mode)
  have b: "getItem (storageHolding unknownBothText) APPEARANCE_STORAGE_KEY = Inr (Some unknownBothText)
      \<and> unknownBothText \<noteq> [] \<and> JSON_parse unknownBothText = Inr ?w
      \<and> \<not> isThemeMode (getProperty ?w (js ''mode''))"
    using key_distinct
    by (simp add: getItem_storageHolding unknownBothText_nonempty unknownBothText_parse sepia_not_mode)
  have w: "isThemeMode (Some (JString (mode ?P))) \<and> isColorPalette (Str (palette ?P)) \<and>
      \<not> getItem_throws (memoryStorage Map.empty) \<and>
      \<not> setItem_throws (memoryStorage Map.empty) APPEARANCE_STORAGE_KEY
          (JSON_stringify_preferences order ?P)" for order
    by (simp add: dark_catppuccin_valid memoryStorage_def)
  note t1 = loadAppearancePreferences_defaults_and_roundtrip
            [of "None" "memoryStorage Map.empty" SyntaxError "[]"
                "storageHolding unknownModeText" unknownModeText ?v ?P "memoryStorage Map.empty"
                ModeFirst]
  note t2 = loadAppearancePreferences_defaults_and_roundtrip
            [of "None" "storageHolding (js ''{not-json'')" SyntaxError "js ''{not-json''"
                "storageHolding unknownBothText" unknownBothText ?w ?P "memoryStorage Map.empty"
                PaletteFirst]
  have r1: "loadAppearancePreferences (Some (memoryStorage Map.empty)) =
      Inr DEFAULT_APPEARANCE_PREFERENCES"
    using t1 [THEN conjunct2, THEN conjunct2, THEN conjunct1] e by simp
  have r2: "loadAppearancePreferences (Some (storageHolding (js ''{not-json''))) =
      Inr DEFAULT_APPEARANCE_PREFERENCES"
    using t2 [THEN conjunct2, THEN conjunct2, THEN conjunct1] m by simp
  have r3: "loadAppearancePreferences (Some (storageHolding unknownModeText)) =
      Inr \<lparr> mode = js ''system'', palette = js ''catppuccin'' \<rparr>"
    using t1 [THEN conjunct2, THEN conjunct2, THEN conjunct2, THEN conjunct1, THEN mp, OF u]
    by (simp add: spec_stored_palette_examples)
  have r4: "loadAppearancePreferences (Some (storageHolding unknownBothText)) =
      Inr \<lparr> mode = js ''system'', palette = js ''tokyo-night'' \<rparr>"
    using t2 [THEN conjunct2, THEN conjunct2, THEN conjunct2, THEN conjunct1, THEN mp, OF b]
    by (simp add: spec_stored_palette_examples)
  have r5: "\<exists>st'. persistAppearancePreferences ModeFirst ?P (Some (memoryStorage Map.empty)) =
        Inr (Some st') \<and> loadAppearancePreferences (Some st') = Inr ?P"
    using t1 [THEN conjunct2, THEN conjunct2, THEN conjunct2, THEN conjunct2, THEN conjunct1, THEN mp, OF w]
    by simp
  have r6: "\<exists>st'. persistAppearancePreferences PaletteFirst ?P (Some (memoryStorage Map.empty)) =
        Inr (Some st') \<and> loadAppearancePreferences (Some st') = Inr ?P"
    using t2 [THEN conjunct2, THEN conjunct2, THEN conjunct2, THEN conjunct2, THEN conjunct1, THEN mp, OF w]
    by simp
  show ?thesis using r1 r2 r3 r4 r5 r6 by (intro conjI)
qed

text \<open>
  Claim C5, as stated, fails: a stored object with the unknown mode \<open>sepia\<close> and the
  palette \<open>catppuccin\<close> loads as mode \<open>system\<close> with palette \<open>catppuccin\<close>, which is
  not the default preference.
\<close>

theorem loadAppearancePreferences_unknown_mode_counterexample:
  "getItem (storageHolding unknownModeText) APPEARANCE_STORAGE_KEY = Inr (Some unknownModeText) \<and>
   JSON_parse unknownModeText =
     Inr (JObject [(js ''mode'', JString (js ''sepia'')),
                   (js ''palette'', JString (js ''catppuccin''))]) \<and>
   \<not> isThemeMode (Some (JString (js ''sepia''))) \<and>
   loadAppearancePreferences (Some (storageHolding unknownModeText)) =
     Inr \<lparr> mode = js ''system'', palette = js ''catppuccin'' \<rparr> \<and>
   loadAppearancePreferences (Some (storageHolding unknownModeText)) \<noteq>
     Inr DEFAULT_APPEARANCE_PREFERENCES"
proof -
  let ?v = "JObject [(js ''mode'', JString (js ''sepia'')), (js ''palette'', JString (js ''catppuccin''))]"
  have l: "loadAppearancePreferences (Some (storageHolding unknownModeText)) =
      Inr (parseStoredPreferences ?v)"
    using getItem_storageHolding unknownModeText_nonempty unknownModeText_parse
    by (rule load_holding)
  have p: "palette (parseStoredPreferences ?v) = js ''catppuccin''"
    using parseStoredPreferences_palette [of ?v "js ''catppuccin''"] COLOR_PALETTES_mem(1)
    by simp
  have m: "mode (parseStoredPreferences ?v) = js ''system''"
    using key_distinct sepia_not_mode by (intro parseStoredPreferences_unknown_mode) simp
  have eq: "parseStoredPreferences ?v = \<lparr> mode = js ''system'', palette = js ''catppuccin'' \<rparr>"
    using p m by (cases "parseStoredPreferences ?v") simp
  have ne: "js ''catppuccin'' \<noteq> js ''tokyo-night''" by (simp add: js_def)
  show ?thesis
    using ne
    by (simp add: l eq getItem_storageHolding unknownModeText_parse sepia_not_mode
        DEFAULT_APPEARANCE_PREFERENCES_def)
qed

text \<open>
  Claim C9. Whenever the stored preference object has a string palette, loading maps the
  legacy identifiers through the fixed table, \<open>sunset\<close> to \<open>catppuccin\<close>, \<open>default\<close> to
  \<open>tokyo-night\<close> and \<open>forest\<close> to \<open>everforest\<close>, and leaves a current identifier as
  it is.
\<close>

theorem loadAppearancePreferences_legacy_palette:
  "getItem st APPEARANCE_STORAGE_KEY = Inr (Some raw) \<and> raw \<noteq> [] \<and> JSON_parse raw = Inr v \<and>
   getProperty v (js ''palette'') = Some (JString p)
     \<longrightarrow> (\<exists>prefs. loadAppearancePreferences (Some st) = Inr prefs \<and>
            (p = js ''sunset'' \<longrightarrow> palette prefs = js ''catppuccin'') \<and>
            (p = js ''default'' \<longrightarrow> palette prefs = js ''tokyo-night'') \<and>
            (p = js ''forest'' \<longrightarrow> palette prefs = js ''everforest'') \<and>
            (p \<in> set COLOR_PALETTES \<longrightarrow> palette prefs = p))"
proof
  assume a: "getItem st APPEARANCE_STORAGE_KEY = Inr (Some raw) \<and> raw \<noteq> [] \<and>
    JSON_parse raw = Inr v \<and> getProperty v (js ''palette'') = Some (JString p)"
  then have "loadAppearancePreferences (Some st) = Inr (parseStoredPreferences v)"
    by (auto intro: load_holding)
  then show "\<exists>prefs. loadAppearancePreferences (Some st) = Inr prefs \<and>
            (p = js ''sunset'' \<longrightarrow> palette prefs = js ''catppuccin'') \<and>
            (p = js ''default'' \<longrightarrow> palette prefs = js ''tokyo-night'') \<and>
            (p = js ''forest'' \<longrightarrow> palette prefs = js ''everforest'') \<and>
            (p \<in> set COLOR_PALETTES \<longrightarrow> palette prefs = p)"
    using a parseStoredPreferences_palette [of v p] by simp
qed

lemma legacyDefaultText_parse:
  "JSON_parse legacyDefaultText =
     Inr (JObject [(js ''mode'', JString (js ''light'')), (js ''palette'', JString (js ''default''))])"
  by (simp add: legacyDefaultText_def json_eval)

lemma legacyForestText_parse:
  "JSON_parse legacyForestText = Inr (JObject [(js ''palette'', JString (js ''forest''))])"
  by (simp add: legacyForestText_def json_eval)

lemma currentPaletteText_parse:
  "JSON_parse currentPaletteText =
     Inr (JObject [(js ''mode'', JString (js ''dark'')), (js ''palette'', JString (js ''everforest''))])"
  by (simp add: currentPaletteText_def json_eval)

lemma legacy_texts_nonempty:
  "legacyDefaultText \<noteq> []" "legacyForestText \<noteq> []" "currentPaletteText \<noteq> []"
  by (simp_all add: legacyDefaultText_def legacyForestText_def currentPaletteText_def js_def)

theorem loadAppearancePreferences_legacy_palette_witness:
  "(\<exists>prefs. loadAppearancePreferences (Some (storageHolding legacyText)) = Inr prefs \<and>
      palette prefs = js ''catppuccin'') \<and>
   (\<exists>prefs. loadAppearancePreferences (Some (storageHolding legacyDefaultText)) = Inr prefs \<and>
      palette prefs = js ''tokyo-night'') \<and>
   (\<exists>prefs. loadAppearancePreferences (Some (storageHolding legacyForestText)) = Inr prefs \<and>
      palette prefs = js ''everforest'') \<and>
   (\<exists>prefs. loadAppearancePreferences (Some (storageHolding currentPaletteText)) = Inr prefs \<and>
      palette prefs = js ''everforest'')"
proof -
  let ?v1 = "JObject [(js ''mode'', JString (js ''dark'')), (js ''palette'', JString (js ''sunset''))]"
  let ?v2 = "JObject [(js ''mode'', JString (js ''light'')), (js ''palette'', JString (js ''default''))]"
  let ?v3 = "JObject [(js ''palette'', JString (js ''forest''))]"
  let ?v4 = "JObject [(js ''mode'', JString (js ''dark'')), (js ''palette'', JString (js ''everforest''))]"
  have h1: "getItem (storageHolding legacyText) APPEARANCE_STORAGE_KEY = Inr (Some legacyText) \<and>
      legacyText \<noteq> [] \<and> JSON_parse legacyText = Inr ?v1 \<and>
      getProperty ?v1 (js ''palette'') = Some (JString (js ''sunset''))"
    by (simp add: getItem_storageHolding legacyText_nonempty legacyText_parse)
  have h2: "getItem (storageHolding legacyDefaultText) APPEARANCE_STORAGE_KEY = Inr (Some legacyDefaultText) \<and>
      legacyDefaultText \<noteq> [] \<and> JSON_parse legacyDefaultText = Inr ?v2 \<and>
      getProperty ?v2 (js ''palette'') = Some (JString (js ''default''))"
    by (simp add: getItem_storageHolding legacy_texts_nonempty legacyDefaultText_parse)
  have h3: "getItem (storageHolding legacyForestText) APPEARANCE_STORAGE_KEY = Inr (Some legacyForestText) \<and>
      legacyForestText \<noteq> [] \<and> JSON_parse legacyForestText = Inr ?v3 \<and>
      getProperty ?v3 (js ''palette'') = Some (JString (js ''forest''))"
    by (simp add: getItem_storageHolding legacy_texts_nonempty legacyForestText_parse)
  have h4: "getItem (storageHolding currentPaletteText) APPEARANCE_STORAGE_KEY = Inr (Some currentPaletteText) \<and>
      currentPaletteText \<noteq> [] \<and> JSON_parse currentPaletteText = Inr ?v4 \<and>
      getProperty ?v4 (js ''palette'') = Some (JString (js ''everforest''))"
    by (simp add: getItem_storageHolding legacy_texts_nonempty currentPaletteText_parse)
  have r1: "\<exists>prefs. loadAppearancePreferences (Some (storageHolding legacyText)) = Inr prefs \<and>
      palette prefs = js ''catppuccin''"
    using loadAppearancePreferences_legacy_palette [THEN mp, OF h1] by (elim exE conjE) simp
  have r2: "\<exists>prefs. loadAppearancePreferences (Some (storageHolding legacyDefaultText)) = Inr prefs \<and>
      palette prefs = js ''tokyo-night''"
    using loadAppearancePreferences_legacy_palette [THEN mp, OF h2] by (elim exE conjE) simp
  have r3: "\<exists>prefs. loadAppearancePreferences (Some (storageHolding legacyForestText)) = Inr prefs \<and>
      palette prefs = js ''everforest''"
    using loadAppearancePreferences_legacy_palette [THEN mp, OF h3] by (elim exE conjE) simp
  have r4: "\<exists>prefs. loadAppearancePreferences (Some (storageHolding currentPaletteText)) = Inr prefs \<and>
      palette prefs = js ''everforest''"
    using loadAppearancePreferences_legacy_palette [THEN mp, OF h4] COLOR_PALETTES_mem(3)
    by (elim exE conjE) simp
  show ?thesis using r1 r2 r3 r4 by (intro conjI)
qed

subsection \<open>The appearance provider\<close>

lemma list_ex_id_image: "list_ex (\<lambda>p. id' p = i) ps \<longleftrightarrow> i \<in> id' ` set ps"
  by (auto simp: list_ex_iff)

lemma list_ex_Some_id_image: "list_ex (\<lambda>p. Some (id' p) = Some i) ps \<longleftrightarrow> i \<in> id' ` set ps"
  by (auto simp: list_ex_iff)

lemma preset_ne_custom: "js ''preset'' \<noteq> js ''custom''"
  by (simp add: js_def)

lemma default_is_preset: "isPresetPalette (palette DEFAULT_APPEARANCE_PREFERENCES)"
  by (simp add: isPresetPalette_def DEFAULT_APPEARANCE_PREFERENCES_def)

lemma createPresetSelection_resolves:
  "isPresetPalette p \<Longrightarrow> selectionResolves (createPresetSelection p) cps"
  by (simp add: selectionResolves_def createPresetSelection_def)

lemma normalize_resolves: "selectionResolves (normalizeActivePaletteSelection a cps) cps"
proof (cases "palette_type a = js ''custom'' \<and>
         custom_palette_id a \<noteq> None \<and> custom_palette_id a \<noteq> Some [] \<and>
         list_ex (\<lambda>p. Some (id' p) = custom_palette_id a) cps")
  case True
  then obtain i where i: "custom_palette_id a = Some i" by auto
  with True have "i \<in> id' ` set cps" by (auto simp: list_ex_iff)
  then show ?thesis
    using True i by (simp add: normalizeActivePaletteSelection_def selectionResolves_def)
next
  case False
  then show ?thesis
    using default_is_preset
    by (auto simp: normalizeActivePaletteSelection_def createPresetSelection_resolves
        split: option.splits)
qed

lemma normalize_custom_only_if:
  assumes "palette_type (normalizeActivePaletteSelection a cps) = js ''custom''"
  shows "\<exists>i. custom_palette_id a = Some i \<and> i \<in> id' ` set cps \<and>
           custom_palette_id (normalizeActivePaletteSelection a cps) = Some i"
proof (cases "palette_type a = js ''custom'' \<and>
         custom_palette_id a \<noteq> None \<and> custom_palette_id a \<noteq> Some [] \<and>
         list_ex (\<lambda>p. Some (id' p) = custom_palette_id a) cps")
  case True
  then obtain i where i: "custom_palette_id a = Some i" by auto
  with True have "i \<in> id' ` set cps" by (auto simp: list_ex_iff)
  then show ?thesis using True i by (simp add: normalizeActivePaletteSelection_def)
next
  case False
  then have "palette_type (normalizeActivePaletteSelection a cps) = js ''preset''"
    by (auto simp: normalizeActivePaletteSelection_def createPresetSelection_def)
  with assms show ?thesis using preset_ne_custom by simp
qed

lemma normalize_missing_custom:
  assumes "palette_type a = js ''custom''"
    and "\<forall>i. custom_palette_id a = Some i \<longrightarrow> i \<notin> id' ` set cps"
  shows "normalizeActivePaletteSelection a cps = createPresetSelection (js ''tokyo-night'')"
proof -
  have "\<not> list_ex (\<lambda>p. Some (id' p) = custom_palette_id a) cps"
    using assms(2) by (cases "custom_palette_id a") (auto simp: list_ex_iff)
  moreover have "palette_type a \<noteq> js ''preset''" using assms(1) preset_ne_custom by simp
  ultimately show ?thesis
    by (simp add: normalizeActivePaletteSelection_def DEFAULT_APPEARANCE_PREFERENCES_def)
qed

lemma refreshPalettes_resume_commits:
  "\<exists>s'. refreshPalettes_resume (Inr (AppearanceSettingsResponse a cps)) s1 = Done s' \<and>
        customPalettes s' = cps \<and> activePalette s' = normalizeActivePaletteSelection a cps"
  by (auto simp: refreshPalettes_resume_def Let_def split: option.splits)

text \<open>
  Claim C7. For every selection and every list of custom palettes, the normalized
  selection resolves: it is of type \<open>custom\<close> only if the id it names is in the list, and
  then it is the id that came in; a \<open>custom\<close> selection whose id is missing from the list
  becomes the default preset \<open>tokyo-night\<close>, not an error. \<open>refreshPalettes\<close> commits the
  fetched list together with the selection normalized against that list, so the committed
  selection names a palette of the committed list or one of the presets.
\<close>

theorem normalizeActivePaletteSelection_resolves:
  "selectionResolves (normalizeActivePaletteSelection a cps) cps \<and>
   (palette_type (normalizeActivePaletteSelection a cps) = js ''custom'' \<longrightarrow>
      (\<exists>i. custom_palette_id a = Some i \<and> i \<in> id' ` set cps \<and>
           custom_palette_id (normalizeActivePaletteSelection a cps) = Some i)) \<and>
   (palette_type a = js ''custom'' \<and>
    (\<forall>i. custom_palette_id a = Some i \<longrightarrow> i \<notin> id' ` set cps) \<longrightarrow>
      normalizeActivePaletteSelection a cps = createPresetSelection (js ''tokyo-night'')) \<and>
   (persist props \<and> isLoggedIn props \<longrightarrow>
      refreshPalettes props s = Await GetAppearance refreshPalettes_resume \<and>
      (\<exists>s'. refreshPalettes_resume (Inr (AppearanceSettingsResponse a cps)) s1 = Done s' \<and>
           customPalettes s' = cps \<and>
           activePalette s' = normalizeActivePaletteSelection a cps \<and>
           selectionResolves (activePalette s') (customPalettes s')))"
proof (intro conjI impI)
  show "selectionResolves (normalizeActivePaletteSelection a cps) cps" by (rule normalize_resolves)
next
  assume "palette_type (normalizeActivePaletteSelection a cps) = js ''custom''"
  then show "\<exists>i. custom_palette_id a = Some i \<and> i \<in> id' ` set cps \<and>
           custom_palette_id (normalizeActivePaletteSelection a cps) = Some i"
    by (rule normalize_custom_only_if)
next
  assume "palette_type a = js ''custom'' \<and>
    (\<forall>i. custom_palette_id a = Some i \<longrightarrow> i \<notin> id' ` set cps)"
  then show "normalizeActivePaletteSelection a cps = createPresetSelection (js ''tokyo-night'')"
    using normalize_missing_custom [of a cps] by simp
next
  assume "persist props \<and> isLoggedIn props"
  then show "refreshPalettes props s = Await GetAppearance refreshPalettes_resume"
    by (simp add: refreshPalettes_def)
next
  obtain s' where s': "refreshPalettes_resume (Inr (AppearanceSettingsResponse a cps)) s1 = Done s'"
      "customPalettes s' = cps" "activePalette s' = normalizeActivePaletteSelection a cps"
    using refreshPalettes_resume_commits [of a cps s1] by blast
  then show "\<exists>s'. refreshPalettes_resume (Inr (AppearanceSettingsResponse a cps)) s1 = Done s' \<and>
           customPalettes s' = cps \<and>
           activePalette s' = normalizeActivePaletteSelection a cps \<and>
           selectionResolves (activePalette s') (customPalettes s')"
    using normalize_resolves [of a cps] by auto
qed

text \<open>
  Claim C8. For an id that is not among the known custom palettes, \<open>selectCustomPalette\<close>
  throws "Custom palette not found." at once: it sends no request and returns nothing, and
  the state it throws in (active selection, custom palettes, preferences) is the state it
  was called in.
\<close>

theorem selectCustomPalette_unknown_id:
  "i \<notin> id' ` set (customPalettes s) \<longrightarrow>
     selectCustomPalette props i s = Fail (Error ''Custom palette not found.'') s \<and>
     (\<forall>req k. selectCustomPalette props i s \<noteq> Await req k) \<and>
     (\<forall>s'. selectCustomPalette props i s \<noteq> Done s')"
  by (simp add: selectCustomPalette_def list_ex_id_image)

lemma gone_not_known: "js ''gone'' \<notin> id' ` set [examplePalette (js ''p1'')]"
  by (simp add: examplePalette_def js_def)

lemma p1_known: "js ''p1'' \<in> id' ` set [examplePalette (js ''p1'')]"
  by (simp add: examplePalette_def)

theorem normalizeActivePaletteSelection_resolves_witness:
  "normalizeActivePaletteSelection missingCustomSelection [examplePalette (js ''p1'')] =
     createPresetSelection (js ''tokyo-night'') \<and>
   custom_palette_id (normalizeActivePaletteSelection knownCustomSelection [examplePalette (js ''p1'')]) =
     Some (js ''p1'') \<and>
   refreshPalettes loggedInProps exampleState = Await GetAppearance refreshPalettes_resume \<and>
   (\<exists>s'. refreshPalettes_resume
           (Inr (AppearanceSettingsResponse missingCustomSelection [examplePalette (js ''p1'')]))
           exampleState = Done s' \<and>
        activePalette s' = createPresetSelection (js ''tokyo-night''))"
proof -
  let ?cps = "[examplePalette (js ''p1'')]"
  have h1: "palette_type missingCustomSelection = js ''custom'' \<and>
      (\<forall>i. custom_palette_id missingCustomSelection = Some i \<longrightarrow> i \<notin> id' ` set ?cps)"
    using gone_not_known by (simp add: missingCustomSelection_def)
  have h2: "persist loggedInProps \<and> isLoggedIn loggedInProps"
    by (simp add: loggedInProps_def)
  have "js ''p1'' \<noteq> []" by (simp add: js_def)
  then have h3: "palette_type (normalizeActivePaletteSelection knownCustomSelection ?cps) = js ''custom''"
    by (simp add: normalizeActivePaletteSelection_def knownCustomSelection_def examplePalette_def)
  have k: "custom_palette_id knownCustomSelection = Some (js ''p1'')"
    by (simp add: knownCustomSelection_def)
  note t1 = normalizeActivePaletteSelection_resolves
              [of missingCustomSelection ?cps loggedInProps exampleState exampleState]
  note t2 = normalizeActivePaletteSelection_resolves
              [of knownCustomSelection ?cps loggedInProps exampleState exampleState]
  have a: "normalizeActivePaletteSelection missingCustomSelection ?cps =
      createPresetSelection (js ''tokyo-night'')"
    using t1 h1 by (elim conjE) simp
  have b: "custom_palette_id (normalizeActivePaletteSelection knownCustomSelection ?cps) = Some (js ''p1'')"
    using t2 h3 k by (elim conjE) auto
  have c: "refreshPalettes loggedInProps exampleState = Await GetAppearance refreshPalettes_resume"
    using t1 h2 by (elim conjE) simp
  have d: "\<exists>s'. refreshPalettes_resume (Inr (AppearanceSettingsResponse missingCustomSelection ?cps))
           exampleState = Done s' \<and>
        activePalette s' = createPresetSelection (js ''tokyo-night'')"
    using t1 h2 a by (elim conjE) auto
  show ?thesis using a b c d by (intro conjI)
qed

theorem selectCustomPalette_unknown_id_witness:
  "js ''gone'' \<notin> id' ` set (customPalettes exampleState) \<and>
   selectCustomPalette loggedInProps (js ''gone'') exampleState =
     Fail (Error ''Custom palette not found.'') exampleState"
proof -
  have h: "js ''gone'' \<notin> id' ` set (customPalettes exampleState)"
    using gone_not_known by (simp add: exampleState_def)
  show ?thesis
    using selectCustomPalette_unknown_id [of "js ''gone''" exampleState loggedInProps] h
    by simp
qed

subsection \<open>The session controller\<close>

lemma auth_run_Nil [simp]: "auth_run [] s = s"
  by (simp add: auth_run_def)

lemma auth_run_Cons [simp]: "auth_run (e # es) s = auth_run es (auth_step e s)"
  by (simp add: auth_run_def)

lemma auth_run_append: "auth_run (es @ fs) s = auth_run fs (auth_run es s)"
  by (simp add: auth_run_def)

lemma auth_inv_initial: "auth_inv initialAuthProvider"
  by (simp add: auth_inv_def initialAuthProvider_def)

lemma auth_inv_refreshUser: "auth_inv s \<Longrightarrow> auth_inv (refreshUser c options s)"
  by (auto simp: auth_inv_def refreshUser_def Let_def split: option.splits
      intro: less_SucI)

lemma auth_inv_settleMe: "auth_inv s \<Longrightarrow> auth_inv (settleMe n result s)"
  by (auto simp: auth_inv_def settleMe_def Let_def list_all_iff filter_empty_conv
      split: option.splits)

lemma auth_inv_step: "auth_inv s \<Longrightarrow> auth_inv (auth_step e s)"
  by (cases e) (simp_all add: auth_inv_refreshUser auth_inv_settleMe)

lemma auth_inv_run: "auth_inv s \<Longrightarrow> auth_inv (auth_run es s)"
  by (induction es arbitrary: s) (simp_all add: auth_inv_step)

lemma auth_inv_reachable: "auth_inv (auth_run es initialAuthProvider)"
  by (rule auth_inv_run [OF auth_inv_initial])

lemma auth_single_flight:
  "auth_inv s \<Longrightarrow> length (pendingMe s) \<le> 1 \<and> (inFlightRefreshRef s = None \<longleftrightarrow> pendingMe s = [])"
  by (auto simp: auth_inv_def split: option.splits)

text \<open>Calls while a promise is in flight only register handlers.\<close>

lemma refreshUser_attached:
  "inFlightRefreshRef s = Some p \<Longrightarrow>
     auth_run (map (\<lambda>(c, options). RefreshUser c options) calls) s =
       s \<lparr> handlers := handlers s @ map (\<lambda>(c, options). (p, c, options)) calls \<rparr>"
proof (induction calls arbitrary: s)
  case Nil
  then show ?case by simp
next
  case (Cons call calls)
  obtain c options where call: "call = (c, options)" by (cases call)
  let ?s1 = "s \<lparr> handlers := handlers s @ [(p, c, options)] \<rparr>"
  have 1: "refreshUser c options s = ?s1" using Cons.prems by (simp add: refreshUser_def)
  have "inFlightRefreshRef ?s1 = Some p" using Cons.prems by simp
  from Cons.IH [OF this] show ?case by (simp add: call 1)
qed

lemma refreshUser_burst:
  assumes "inFlightRefreshRef s = None"
  shows "auth_run (map (\<lambda>(c, options). RefreshUser c options) ((c0, o0) # calls)) s =
       s \<lparr> sentMe := Suc (sentMe s),
           pendingMe := pendingMe s @ [sentMe s],
           effects := effects s @ [SentMe (sentMe s)],
           inFlightRefreshRef := Some (sentMe s),
           handlers := handlers s @ map (\<lambda>(c, options). (sentMe s, c, options)) ((c0, o0) # calls) \<rparr>"
proof -
  let ?n = "sentMe s"
  let ?s1 = "s \<lparr> sentMe := Suc ?n, pendingMe := pendingMe s @ [?n],
                 effects := effects s @ [SentMe ?n], inFlightRefreshRef := Some ?n,
                 handlers := handlers s @ [(?n, c0, o0)] \<rparr>"
  have 1: "refreshUser c0 o0 s = ?s1" using assms by (simp add: refreshUser_def Let_def)
  have "inFlightRefreshRef ?s1 = Some ?n" by simp
  from refreshUser_attached [OF this, of calls] show ?thesis by (simp add: 1)
qed

lemma settleMe_pending:
  assumes "auth_inv s" "inFlightRefreshRef s = Some p"
  shows "settleMe p result s =
     s \<lparr> pendingMe := [],
         user := (case result of Inr u \<Rightarrow> Some u | Inl e \<Rightarrow> None),
         inFlightRefreshRef := None,
         handlers := [],
         effects := effects s @
           [SetUser (case result of Inr u \<Rightarrow> Some u | Inl e \<Rightarrow> None), ClearedRef] @
           map (\<lambda>h. Settled (fst (snd h)) (callerSettlement (snd (snd h)) result)) (handlers s) \<rparr>"
proof -
  have p: "pendingMe s = [p]" and h: "list_all (\<lambda>h. fst h = p) (handlers s)"
    using assms by (simp_all add: auth_inv_def)
  have f1: "filter (\<lambda>h. fst h = p) (handlers s) = handlers s"
    using h by (simp add: list_all_iff)
  have f2: "filter (\<lambda>h. fst h \<noteq> p) (handlers s) = []"
    using h by (simp add: list_all_iff filter_empty_conv)
  show ?thesis by (simp add: settleMe_def Let_def p f1 f2)
qed

lemma refreshUser_registers:
  "\<exists>p. inFlightRefreshRef (refreshUser c options s) = Some p \<and>
       (p, c, options) \<in> set (handlers (refreshUser c options s))"
  by (cases "inFlightRefreshRef s") (simp_all add: refreshUser_def Let_def)

lemma callerSettlement_failure:
  "(callerSettlement options (Inl e) = Rejected e \<longleftrightarrow> throwOnError_set options) \<and>
   (\<not> throwOnError_set options \<longrightarrow> callerSettlement options (Inl e) = Resolved)"
  by (simp add: callerSettlement_def)

lemma settleMe_failure:
  fixes s :: "('u, 'e) AuthProvider"
  assumes inv: "auth_inv s" and h: "(p, c, options) \<in> set (handlers s)"
  shows "user (settleMe p (Inl e) s) = None \<and> inFlightRefreshRef (settleMe p (Inl e) s) = None \<and>
     (\<exists>before after. effects (settleMe p (Inl e) s) =
        effects s @ [SetUser None, ClearedRef] @ before @
        [Settled c (callerSettlement options (Inl e :: 'e + 'u))] @ after)"
proof -
  have ne: "handlers s \<noteq> []" using h by auto
  then obtain q where q: "inFlightRefreshRef s = Some q"
    using inv by (cases "inFlightRefreshRef s") (simp_all add: auth_inv_def)
  then have "list_all (\<lambda>h. fst h = q) (handlers s)" using inv by (simp add: auth_inv_def)
  with h have "q = p" by (auto simp: list_all_iff)
  with q have r: "inFlightRefreshRef s = Some p" by simp
  obtain xs ys where split: "handlers s = xs @ (p, c, options) # ys"
    using h by (auto simp: in_set_conv_decomp)
  let ?f = "\<lambda>h. Settled (fst (snd h)) (callerSettlement (snd (snd h)) (Inl e :: 'e + 'u))"
  have "effects (settleMe p (Inl e) s) =
      effects s @ [SetUser None, ClearedRef] @ map ?f xs @
      [Settled c (callerSettlement options (Inl e :: 'e + 'u))] @ map ?f ys"
    by (simp add: settleMe_pending [OF inv r] split)
  then show ?thesis by (auto simp: settleMe_pending [OF inv r])
qed

text \<open>
  Claim C4. Every call of \<open>refreshUser\<close> registers a handler on the promise in flight,
  whether it started the request or found one pending. When that request fails, in any
  reachable state of the provider, \<open>setUser(null)\<close> and the clearing of the reference
  come before the settlement of any caller's promise, the user snapshot is then \<open>null\<close>,
  and the promise returned to a caller rejects with the error of the request exactly when
  the caller set \<open>throwOnError\<close>; otherwise it resolves.
\<close>

theorem refreshUser_failure_clears_user:
  fixes events :: "('u, 'e) auth_event list" and s0 :: "('u, 'e) AuthProvider"
  shows
  "(\<exists>p. inFlightRefreshRef (refreshUser c options s0) = Some p \<and>
        (p, c, options) \<in> set (handlers (refreshUser c options s0))) \<and>
   ((p, c, options) \<in> set (handlers (auth_run events initialAuthProvider)) \<longrightarrow>
      user (settleMe p (Inl e) (auth_run events initialAuthProvider)) = None \<and>
      inFlightRefreshRef (settleMe p (Inl e) (auth_run events initialAuthProvider)) = None \<and>
      (\<exists>before after.
         effects (settleMe p (Inl e) (auth_run events initialAuthProvider)) =
           effects (auth_run events initialAuthProvider) @ [SetUser None, ClearedRef] @ before @
           [Settled c (callerSettlement options (Inl e :: 'e + 'u))] @ after) \<and>
      (callerSettlement options (Inl e :: 'e + 'u) = Rejected e \<longleftrightarrow> throwOnError_set options) \<and>
      (\<not> throwOnError_set options \<longrightarrow> callerSettlement options (Inl e :: 'e + 'u) = Resolved))"
  using refreshUser_registers [of c options s0]
    settleMe_failure [OF auth_inv_reachable, of p c options events e]
    callerSettlement_failure [of options e]
  by blast

lemma twoCallers_state:
  "auth_run twoCallers initialAuthProvider =
     \<lparr> user = None, inFlightRefreshRef = Some 0, pendingMe = [0], sentMe = Suc 0,
       handlers = [(0, 0, quietOptions), (0, 1, throwingOptions)],
       effects = [SentMe 0] \<rparr>"
  by (simp add: twoCallers_def initialAuthProvider_def refreshUser_def Let_def)

theorem refreshUser_failure_clears_user_witness:
  "(0, 1, throwingOptions) \<in> set (handlers (auth_run twoCallers initialAuthProvider)) \<and>
   (0, 0, quietOptions) \<in> set (handlers (auth_run twoCallers initialAuthProvider)) \<and>
   throwOnError_set throwingOptions \<and> \<not> throwOnError_set quietOptions \<and>
   user (settleMe 0 (Inl (Error ''401'')) (auth_run twoCallers initialAuthProvider)) = None \<and>
   callerSettlement throwingOptions (Inl (Error ''401'') :: error + jsstring) = Rejected (Error ''401'') \<and>
   callerSettlement quietOptions (Inl (Error ''401'') :: error + jsstring) = Resolved"
proof -
  have h1: "(0, 1, throwingOptions) \<in> set (handlers (auth_run twoCallers initialAuthProvider))"
    and h0: "(0, 0, quietOptions) \<in> set (handlers (auth_run twoCallers initialAuthProvider))"
    by (simp_all add: twoCallers_state)
  have t: "throwOnError_set throwingOptions" "\<not> throwOnError_set quietOptions"
    by (simp_all add: throwOnError_set_def throwingOptions_def quietOptions_def)
  show ?thesis
    using refreshUser_failure_clears_user
            [of 1 throwingOptions initialAuthProvider 0 twoCallers "Error ''401''"]
          refreshUser_failure_clears_user
            [of 0 quietOptions initialAuthProvider 0 twoCallers "Error ''401''"]
          h1 h0 t
    by blast
qed

subsection \<open>The HTTP client\<close>

lemma client_run_Nil [simp]: "client_run [] s = s"
  by (simp add: client_run_def)

lemma client_run_Cons [simp]: "client_run (e # es) s = client_run es (client_step e s)"
  by (simp add: client_run_def)

lemma client_run_append: "client_run (es @ fs) s = client_run fs (client_run es s)"
  by (simp add: client_run_def)

lemma includes_self: "String_includes s s"
  by (cases s) simp_all

lemma refresh_always_rethrows:
  "shouldRethrow \<lparr> config = (if hasConfig then Some refreshConfig else None), status = st \<rparr>"
  by (simp add: shouldRethrow_def refreshConfig_def includes_self)

lemma not_rethrow_retryable:
  assumes "\<not> shouldRethrow \<lparr> config = (if hasConfig then Some cfg else None), status = st \<rparr>"
  shows "hasConfig \<and> st = Some 401 \<and> retryable cfg"
  using assms by (cases hasConfig) (auto simp: shouldRethrow_def retryable_def Let_def)

lemma marked_not_retryable: "retry' cfg \<Longrightarrow> \<not> retryable cfg"
  by (simp add: retryable_def)

lemma ids_ok_send: "ids_ok s \<Longrightarrow> ids_ok (send k cfg s)"
  by (auto simp: ids_ok_def send_def list_all_iff intro: less_SucI)

lemma ids_ok_remove: "ids_ok s \<Longrightarrow> ids_ok (s \<lparr> inflight := filter (\<lambda>x. fst x \<noteq> n) (inflight s) \<rparr>)"
  by (auto simp: ids_ok_def list_all_iff distinct_map_filter)

lemma send_fields [simp]:
  "inFlightRefreshPromise (send k cfg s) = inFlightRefreshPromise s"
  "waiting (send k cfg s) = waiting s"
  "callCount (send k cfg s) = callCount s"
  "sentCount (send k cfg s) = Suc (sentCount s)"
  "inflight (send k cfg s) = inflight s @ [(sentCount s, k, cfg)]"
  "clientEffects (send k cfg s) = clientEffects s @ [Sent (sentCount s) k cfg]"
  by (simp_all add: send_def)

lemma client_inv_alt:
  "client_inv s \<longleftrightarrow>
     ids_ok s \<and> list_all (\<lambda>w. retry' (snd w)) (waiting s) \<and>
     (case inFlightRefreshPromise s of
        None \<Rightarrow> refreshEntries s = [] \<and> waiting s = []
      | Some p \<Rightarrow> refreshEntries s = [(p, RefreshChain, refreshConfig)])"
  unfolding client_inv_def ids_ok_def refreshEntries_def by (simp add: conj_assoc)

lemma refreshEntries_send_caller [simp]:
  "refreshEntries (send (Caller c) cfg s) = refreshEntries s"
  by (simp add: refreshEntries_def)

lemma refreshEntries_send_refresh [simp]:
  "refreshEntries (send RefreshChain cfg s) = refreshEntries s @ [(sentCount s, RefreshChain, cfg)]"
  by (simp add: refreshEntries_def)

lemma resendAll_Nil [simp]: "resendAll [] s = s"
  by (simp add: resendAll_def)

lemma resendAll_Cons [simp]: "resendAll (w # ws) s = resendAll ws (send (Caller (fst w)) (snd w) s)"
  by (simp add: resendAll_def)

lemma resendAll_fields [simp]:
  "inFlightRefreshPromise (resendAll ws s) = inFlightRefreshPromise s"
  "waiting (resendAll ws s) = waiting s"
  "callCount (resendAll ws s) = callCount s"
  "refreshEntries (resendAll ws s) = refreshEntries s"
  by (induction ws arbitrary: s) simp_all

lemma ids_ok_resendAll: "ids_ok s \<Longrightarrow> ids_ok (resendAll ws s)"
  by (induction ws arbitrary: s) (simp_all add: ids_ok_send)

lemma ids_ok_fields [simp]:
  "ids_ok (s \<lparr> clientEffects := es \<rparr>) = ids_ok s"
  "ids_ok (s \<lparr> waiting := ws \<rparr>) = ids_ok s"
  "ids_ok (s \<lparr> inFlightRefreshPromise := h \<rparr>) = ids_ok s"
  "ids_ok (s \<lparr> callCount := k \<rparr>) = ids_ok s"
  by (simp_all add: ids_ok_def)

lemma refreshEntries_fields [simp]:
  "refreshEntries (s \<lparr> clientEffects := es \<rparr>) = refreshEntries s"
  "refreshEntries (s \<lparr> waiting := ws \<rparr>) = refreshEntries s"
  "refreshEntries (s \<lparr> inFlightRefreshPromise := h \<rparr>) = refreshEntries s"
  "refreshEntries (s \<lparr> callCount := k \<rparr>) = refreshEntries s"
  by (simp_all add: refreshEntries_def)

lemma refreshEntries_remove:
  "refreshEntries (s \<lparr> inflight := filter (\<lambda>x. fst x \<noteq> n) (inflight s) \<rparr>) =
     filter (\<lambda>x. fst x \<noteq> n) (refreshEntries s)"
  by (simp add: refreshEntries_def conj_commute)

lemma client_inv_initial: "client_inv initialClient"
  by (simp add: client_inv_def initialClient_def)

lemma client_inv_call: "client_inv s \<Longrightarrow> client_inv (call cfg s)"
  by (auto simp: client_inv_alt call_def ids_ok_send split: option.splits)

lemma find_SomeD: "find P xs = Some x \<Longrightarrow> P x \<and> x \<in> set xs"
  by (induction xs) (auto split: if_splits)

lemma find_inflight:
  assumes "find (\<lambda>x. fst x = n) (inflight s) = Some (m, k, cfg)"
  shows "m = n \<and> (n, k, cfg) \<in> set (inflight s)"
  using find_SomeD [OF assms] by auto

lemma refresh_entry_is_handle:
  assumes "client_inv s" "(n, RefreshChain, cfg) \<in> set (inflight s)"
  shows "inFlightRefreshPromise s = Some n \<and> cfg = refreshConfig"
proof -
  have "(n, RefreshChain, cfg) \<in> set (refreshEntries s)"
    using assms(2) by (simp add: refreshEntries_def)
  then show ?thesis
    using assms(1) by (cases "inFlightRefreshPromise s") (auto simp: client_inv_alt)
qed

lemma client_inv_deliver_caller:
  "client_inv s \<Longrightarrow> client_inv (deliver (Caller c) reply s)"
  by (auto simp: client_inv_alt deliver_def split: option.splits)

lemma client_inv_removed_caller:
  assumes "client_inv s" "(n, Caller c, cfg) \<in> set (inflight s)"
  shows "client_inv (s \<lparr> inflight := filter (\<lambda>x. fst x \<noteq> n) (inflight s) \<rparr>)"
proof -
  let ?s1 = "s \<lparr> inflight := filter (\<lambda>x. fst x \<noteq> n) (inflight s) \<rparr>"
  have d: "distinct (map fst (inflight s))" using assms(1) by (simp add: client_inv_def)
  have keep: "filter (\<lambda>x. fst x \<noteq> n) (refreshEntries s) = refreshEntries s"
  proof (rule filter_True, rule ballI)
    fix x assume x: "x \<in> set (refreshEntries s)"
    then have xin: "x \<in> set (inflight s)" and xr: "fst (snd x) = RefreshChain"
      by (simp_all add: refreshEntries_def)
    show "fst x \<noteq> n"
    proof
      assume "fst x = n"
      then have "x = (n, Caller c, cfg)"
        using d xin assms(2) by (metis eq_key_imp_eq_value prod.collapse)
      with xr show False by simp
    qed
  qed
  show ?thesis
    using assms(1) keep
    by (auto simp: client_inv_alt ids_ok_remove refreshEntries_remove split: option.splits)
qed

lemma client_inv_removed_refresh:
  assumes "client_inv s" "inFlightRefreshPromise s = Some p"
  shows "ids_ok (s \<lparr> inflight := filter (\<lambda>x. fst x \<noteq> p) (inflight s) \<rparr>) \<and>
         refreshEntries (s \<lparr> inflight := filter (\<lambda>x. fst x \<noteq> p) (inflight s) \<rparr>) = [] \<and>
         list_all (\<lambda>w. retry' (snd w)) (waiting s)"
  using assms by (simp add: client_inv_alt ids_ok_remove refreshEntries_remove)

lemma client_inv_refreshAccessToken: "client_inv s \<Longrightarrow> client_inv (refreshAccessToken s)"
  by (auto simp: client_inv_alt refreshAccessToken_def ids_ok_send split: option.splits)

lemma refreshAccessToken_handle: "inFlightRefreshPromise (refreshAccessToken s) \<noteq> None"
  by (simp add: refreshAccessToken_def split: option.splits)

lemma client_inv_answer: "client_inv s \<Longrightarrow> client_inv (answer n a s)"
proof -
  assume inv: "client_inv s"
  show ?thesis
  proof (cases "find (\<lambda>x. fst x = n) (inflight s)")
    case None
    then show ?thesis using inv by (simp add: answer_def)
  next
    case (Some entry)
    obtain m k cfg where entry: "entry = (m, k, cfg)" by (cases entry)
    have mem: "(n, k, cfg) \<in> set (inflight s)" and m: "m = n"
      using find_inflight [of n s m k cfg] Some entry by simp_all
    let ?s1 = "s \<lparr> inflight := filter (\<lambda>x. fst x \<noteq> n) (inflight s) \<rparr>"
    show ?thesis
    proof (cases k)
      case (Caller c)
      have inv1: "client_inv ?s1" using client_inv_removed_caller [OF inv] mem Caller by simp
      show ?thesis
      proof (cases a)
        case (Succeeds r)
        then show ?thesis
          using inv1 by (simp add: answer_def Some entry Caller client_inv_deliver_caller)
      next
        case (FailsWith hasConfig st)
        let ?e = "\<lparr> config = (if hasConfig then Some cfg else None), status = st \<rparr>"
        show ?thesis
        proof (cases "shouldRethrow ?e")
          case True
          then show ?thesis
            using inv1
            by (simp add: answer_def Some entry Caller FailsWith onRejected_def
                client_inv_deliver_caller)
        next
          case False
          have inv2: "client_inv (refreshAccessToken ?s1)"
            using inv1 by (rule client_inv_refreshAccessToken)
          have h: "inFlightRefreshPromise (refreshAccessToken ?s1) \<noteq> None"
            by (rule refreshAccessToken_handle)
          have "client_inv ((refreshAccessToken ?s1)
                  \<lparr> waiting := waiting (refreshAccessToken ?s1) @
                      [(c, (the (config ?e)) \<lparr> retry' := True \<rparr>)] \<rparr>)"
            using inv2 h by (auto simp: client_inv_alt split: option.splits)
          then show ?thesis
            using False by (simp add: answer_def Some entry Caller FailsWith onRejected_def Let_def)
        qed
      qed
    next
      case RefreshChain
      have hp: "inFlightRefreshPromise s = Some n" and cfg: "cfg = refreshConfig"
        using refresh_entry_is_handle [OF inv] mem RefreshChain by simp_all
      note r = client_inv_removed_refresh [OF inv hp]
      have ok: "\<And>reply. client_inv (deliver RefreshChain reply ?s1)"
      proof -
        fix reply :: "'a reply"
        show "client_inv (deliver RefreshChain reply ?s1)"
        proof (cases reply)
          case (Fulfilled x)
          have "client_inv (resendAll (waiting s)
                  (?s1 \<lparr> inFlightRefreshPromise := None, waiting := [],
                         clientEffects := clientEffects ?s1 @ [ClearedHandle] \<rparr>))"
            using r by (simp add: client_inv_alt ids_ok_resendAll)
          then show ?thesis by (simp add: deliver_def Fulfilled Let_def)
        next
          case (Failed e)
          then show ?thesis using r by (simp add: deliver_def Let_def client_inv_alt)
        qed
      qed
      show ?thesis
      proof (cases a)
        case (Succeeds x)
        then show ?thesis by (simp add: answer_def Some entry RefreshChain ok)
      next
        case (FailsWith hasConfig st)
        then show ?thesis
          using refresh_always_rethrows [of hasConfig st]
          by (simp add: answer_def Some entry RefreshChain cfg onRejected_def ok)
      qed
    qed
  qed
qed

lemma client_inv_step: "client_inv s \<Longrightarrow> client_inv (client_step e s)"
  by (cases e) (simp_all add: client_inv_call client_inv_answer)

lemma client_inv_run: "client_inv s \<Longrightarrow> client_inv (client_run es s)"
  by (induction es arbitrary: s) (simp_all add: client_inv_step)

lemma client_inv_reachable: "client_inv (client_run es initialClient)"
  by (rule client_inv_run [OF client_inv_initial])

lemma client_single_flight:
  "client_inv s \<Longrightarrow>
     refreshesInFlight s \<le> 1 \<and> (inFlightRefreshPromise s = None \<longleftrightarrow> refreshesInFlight s = 0)"
  by (auto simp: client_inv_def refreshesInFlight_def split: option.splits)

lemma sendsFor_append [simp]: "sendsFor c (es @ fs) = sendsFor c es + sendsFor c fs"
  by (simp add: sendsFor_def)

lemma sendsFor_Nil [simp]: "sendsFor c [] = 0"
  by (simp add: sendsFor_def)

lemma sendsFor_Cons [simp]:
  "sendsFor c (Sent n k cfg # es) = (if k = Caller c then 1 else 0) + sendsFor c es"
  "sendsFor c (ClearedHandle # es) = sendsFor c es"
  "sendsFor c (Replied d reply # es) = sendsFor c es"
  by (simp_all add: sendsFor_def isSendFor_def)

lemma sendsFor_replies [simp]: "sendsFor c (map (\<lambda>w. Replied (f w) (g w)) ws) = 0"
  by (simp add: sendsFor_def isSendFor_def filter_empty_conv)

lemma count_after_remove:
  assumes "distinct (map fst xs)" "(n, y) \<in> set xs"
  shows "length (filter Q (filter (\<lambda>x. fst x \<noteq> n) xs)) + (if Q (n, y) then 1 else 0) =
         length (filter Q xs)"
  using assms
proof (induction xs)
  case Nil
  then show ?case by simp
next
  case (Cons x xs)
  show ?case
  proof (cases "x = (n, y)")
    case True
    then have "n \<notin> fst ` set xs" using Cons.prems(1) by simp
    then have "filter (\<lambda>x. fst x \<noteq> n) xs = xs" by (auto simp: filter_id_conv)
    then show ?thesis using True by simp
  next
    case False
    then have in_xs: "(n, y) \<in> set xs" using Cons.prems(2) by simp
    then have "fst x \<noteq> n" using Cons.prems(1) by (auto simp: image_iff)
    then show ?thesis using Cons.IH [OF _ in_xs] Cons.prems(1) by simp
  qed
qed

lemma potential_removed:
  assumes "client_inv s" "(n, k, cfg) \<in> set (inflight s)"
  shows "potential c (s \<lparr> inflight := filter (\<lambda>x. fst x \<noteq> n) (inflight s) \<rparr>) +
           (if k = Caller c \<and> retryable cfg then 1 else 0) = potential c s"
proof -
  have d: "distinct (map fst (inflight s))" using assms(1) by (simp add: client_inv_def)
  show ?thesis
    using count_after_remove [OF d assms(2),
        of "\<lambda>x. fst (snd x) = Caller c \<and> retryable (snd (snd x))"]
    by (simp add: potential_def)
qed

lemma potential_deliver_caller [simp]: "potential c (deliver (Caller d) reply s) = potential c s"
  by (simp add: potential_def deliver_def)

lemma potential_refreshAccessToken [simp]: "potential c (refreshAccessToken s) = potential c s"
  by (simp add: potential_def refreshAccessToken_def split: option.splits)

lemma potential_send_caller:
  "potential c (send (Caller d) cfg s) =
     potential c s + (if d = c then 1 + (if retryable cfg then 1 else 0) else 0)"
  by (simp add: potential_def)

lemma potential_resendAll:
  "list_all (\<lambda>w. retry' (snd w)) ws \<Longrightarrow>
     potential c (resendAll ws s) = potential c s + length (filter (\<lambda>w. fst w = c) ws)"
proof (induction ws arbitrary: s)
  case Nil
  then show ?case by simp
next
  case (Cons w ws)
  then have "\<not> retryable (snd w)" by (simp add: marked_not_retryable)
  then show ?case using Cons by (simp add: potential_send_caller)
qed

lemma potential_deliver_refresh:
  assumes "list_all (\<lambda>w. retry' (snd w)) (waiting s)"
  shows "potential c (deliver RefreshChain reply s) \<le> potential c s"
proof (cases reply)
  case (Fulfilled r)
  let ?s1 = "s \<lparr> inFlightRefreshPromise := None, waiting := [],
                 clientEffects := clientEffects s @ [ClearedHandle] \<rparr>"
  have "potential c (resendAll (waiting s) ?s1) =
      potential c ?s1 + length (filter (\<lambda>w. fst w = c) (waiting s))"
    using assms by (rule potential_resendAll)
  also have "\<dots> = potential c s" by (simp add: potential_def)
  finally show ?thesis by (simp add: deliver_def Fulfilled Let_def)
next
  case (Failed e)
  then show ?thesis by (simp add: deliver_def Let_def potential_def)
qed

lemma potential_answer:
  assumes inv: "client_inv s"
  shows "potential c (answer n a s) \<le> potential c s"
proof (cases "find (\<lambda>x. fst x = n) (inflight s)")
  case None
  then show ?thesis by (simp add: answer_def)
next
  case (Some entry)
  obtain m k cfg where entry: "entry = (m, k, cfg)" by (cases entry)
  have mem: "(n, k, cfg) \<in> set (inflight s)"
    using find_inflight [of n s m k cfg] Some entry by simp
  let ?s1 = "s \<lparr> inflight := filter (\<lambda>x. fst x \<noteq> n) (inflight s) \<rparr>"
  note rem = potential_removed [OF inv mem, of c]
  have le1: "potential c ?s1 \<le> potential c s" using rem by linarith
  have w1: "list_all (\<lambda>w. retry' (snd w)) (waiting ?s1)"
    using inv by (simp add: client_inv_def)
  show ?thesis
  proof (cases a)
    case (Succeeds r)
    show ?thesis
    proof (cases k)
      case (Caller d)
      then show ?thesis using le1 by (simp add: answer_def Some entry Succeeds)
    next
      case RefreshChain
      then show ?thesis
        using le1 potential_deliver_refresh [OF w1, of c "Fulfilled r"]
        by (simp add: answer_def Some entry Succeeds)
    qed
  next
    case (FailsWith hasConfig st)
    let ?e = "\<lparr> config = (if hasConfig then Some cfg else None), status = st \<rparr>"
    show ?thesis
    proof (cases "shouldRethrow ?e")
      case True
      show ?thesis
      proof (cases k)
        case (Caller d)
        then show ?thesis
          using le1 True by (simp add: answer_def Some entry FailsWith onRejected_def)
      next
        case RefreshChain
        then show ?thesis
          using le1 True potential_deliver_refresh [OF w1, of c "Failed ?e"]
          by (simp add: answer_def Some entry FailsWith onRejected_def)
      qed
    next
      case False
      then have r: "retryable cfg" using not_rethrow_retryable by blast
      show ?thesis
      proof (cases k)
        case (Caller d)
        have "potential c ((refreshAccessToken ?s1)
                \<lparr> waiting := waiting (refreshAccessToken ?s1) @
                    [(d, (the (config ?e)) \<lparr> retry' := True \<rparr>)] \<rparr>) =
              potential c (refreshAccessToken ?s1) + (if d = c then 1 else 0)"
          by (simp add: potential_def)
        also have "\<dots> = potential c ?s1 + (if d = c then 1 else 0)" by simp
        also have "\<dots> = potential c s" using rem r Caller by simp
        finally show ?thesis
          using False by (simp add: answer_def Some entry FailsWith onRejected_def Let_def Caller)
      next
        case RefreshChain
        then show ?thesis
          using le1 False by (simp add: answer_def Some entry FailsWith onRejected_def Let_def)
      qed
    qed
  qed
qed

lemma potential_call:
  "potential c (call cfg s) =
     potential c s + (if callCount s = c then 1 + (if retryable cfg then 1 else 0) else 0)"
proof -
  have "potential c (s \<lparr> callCount := Suc (callCount s) \<rparr>) = potential c s"
    by (simp add: potential_def)
  then show ?thesis by (simp add: call_def potential_send_caller)
qed

lemma callCount_answer [simp]: "callCount (answer n a s) = callCount s"
  by (simp add: answer_def onRejected_def deliver_def refreshAccessToken_def Let_def
      split: option.splits prod.splits answer.splits awaiter.splits reply.splits)

lemma callCount_call [simp]: "callCount (call cfg s) = Suc (callCount s)"
  by (simp add: call_def)

lemma bounded_initial: "bounded initialClient"
  by (simp add: bounded_def client_inv_initial) (simp add: potential_def initialClient_def)

lemma bounded_step: "bounded s \<Longrightarrow> bounded (client_step e s)"
proof (cases e)
  case (Call cfg)
  assume b: "bounded s"
  have "\<And>c. potential c (call cfg s) \<le> 2"
    using b by (cases "retryable cfg") (auto simp: bounded_def potential_call)
  moreover have "\<And>c. callCount (call cfg s) \<le> c \<Longrightarrow> potential c (call cfg s) = 0"
    using b by (auto simp: bounded_def potential_call)
  ultimately show ?thesis using b Call by (simp add: bounded_def client_inv_call)
next
  case (Answer n a)
  assume b: "bounded s"
  then have inv: "client_inv s" by (simp add: bounded_def)
  have le: "\<And>c. potential c (answer n a s) \<le> potential c s" using inv by (rule potential_answer)
  have "\<And>c. potential c (answer n a s) \<le> 2"
    using le b by (auto simp: bounded_def intro: order_trans)
  moreover have "\<And>c. callCount s \<le> c \<Longrightarrow> potential c (answer n a s) = 0"
  proof -
    fix c assume "callCount s \<le> c"
    then have "potential c s = 0" using b by (simp add: bounded_def)
    with le [of c] show "potential c (answer n a s) = 0" by simp
  qed
  ultimately show ?thesis using Answer inv by (simp add: bounded_def client_inv_answer)
qed

lemma bounded_run: "bounded s \<Longrightarrow> bounded (client_run es s)"
  by (induction es arbitrary: s) (simp_all add: bounded_step)

lemma sends_le_potential: "sendsFor c (clientEffects s) \<le> potential c s"
  by (simp add: potential_def)

lemma sends_at_most_two: "sendsFor c (clientEffects (client_run events initialClient)) \<le> 2"
  using bounded_run [OF bounded_initial, of events] sends_le_potential [of c]
  by (auto simp: bounded_def intro: order_trans)

lemma shouldRethrow_iff:
  "shouldRethrow \<lparr> config = (if hasConfig then Some cfg else None), status = st \<rparr> \<longleftrightarrow>
     \<not> hasConfig \<or> st \<noteq> Some 401 \<or> \<not> retryable cfg"
  by (cases hasConfig) (auto simp: shouldRethrow_def retryable_def Let_def)

lemma find_distinct:
  assumes "distinct (map fst xs)" "(n, y) \<in> set xs"
  shows "find (\<lambda>x. fst x = n) xs = Some (n, y)"
  using assms
proof (induction xs)
  case Nil
  then show ?case by simp
next
  case (Cons x xs)
  show ?case
  proof (cases "x = (n, y)")
    case True
    then show ?thesis by simp
  next
    case False
    then have in_xs: "(n, y) \<in> set xs" using Cons.prems(2) by simp
    then have "fst x \<noteq> n" using Cons.prems(1) by (auto simp: image_iff)
    then show ?thesis using Cons.IH [OF _ in_xs] Cons.prems(1) by simp
  qed
qed

lemma find_inflight_entry:
  assumes "client_inv s" "(n, k, cfg) \<in> set (inflight s)"
  shows "find (\<lambda>x. fst x = n) (inflight s) = Some (n, k, cfg)"
  using assms by (intro find_distinct) (simp_all add: client_inv_def)

lemma answer_rethrown:
  assumes "client_inv s" "(n, Caller c, cfg) \<in> set (inflight s)"
    and "\<not> hasConfig \<or> st \<noteq> Some 401 \<or> \<not> retryable cfg"
  shows "answer n (FailsWith hasConfig st) s =
     s \<lparr> inflight := filter (\<lambda>x. fst x \<noteq> n) (inflight s),
         clientEffects := clientEffects s @
           [Replied c (Failed \<lparr> config = (if hasConfig then Some cfg else None), status = st \<rparr>)] \<rparr>"
  using assms(3) shouldRethrow_iff [of hasConfig cfg st]
  by (simp add: answer_def find_inflight_entry [OF assms(1,2)] onRejected_def deliver_def)

lemma effects_resendAll: "\<exists>new. clientEffects (resendAll ws s) = clientEffects s @ new"
proof (induction ws arbitrary: s)
  case Nil
  then show ?case by simp
next
  case (Cons w ws)
  from Cons [of "send (Caller (fst w)) (snd w) s"] show ?case by auto
qed

lemma effects_deliver: "\<exists>new. clientEffects (deliver k reply s) = clientEffects s @ new"
proof (cases k)
  case (Caller c)
  then show ?thesis by (simp add: deliver_def)
next
  case RefreshChain
  show ?thesis
  proof (cases reply)
    case (Fulfilled r)
    let ?s1 = "s \<lparr> inFlightRefreshPromise := None, waiting := [],
                   clientEffects := clientEffects s @ [ClearedHandle] \<rparr>"
    obtain new where "clientEffects (resendAll (waiting s) ?s1) = clientEffects ?s1 @ new"
      using effects_resendAll by blast
    then show ?thesis by (simp add: deliver_def RefreshChain Fulfilled Let_def)
  next
    case (Failed e)
    then show ?thesis by (simp add: deliver_def RefreshChain Let_def)
  qed
qed

lemma effects_refreshAccessToken:
  "\<exists>new. clientEffects (refreshAccessToken s) = clientEffects s @ new"
  by (simp add: refreshAccessToken_def split: option.splits)

lemma effects_onRejected: "\<exists>new. clientEffects (onRejected k e s) = clientEffects s @ new"
proof (cases "shouldRethrow e")
  case True
  then show ?thesis by (simp add: onRejected_def effects_deliver)
next
  case False
  obtain new where "clientEffects (refreshAccessToken s) = clientEffects s @ new"
    using effects_refreshAccessToken by blast
  then show ?thesis using False by (cases k) (simp_all add: onRejected_def Let_def)
qed

lemma effects_answer: "\<exists>new. clientEffects (answer n a s) = clientEffects s @ new"
proof (cases "find (\<lambda>x. fst x = n) (inflight s)")
  case None
  then show ?thesis by (simp add: answer_def)
next
  case (Some entry)
  obtain m k cfg where entry: "entry = (m, k, cfg)" by (cases entry)
  let ?s1 = "s \<lparr> inflight := filter (\<lambda>x. fst x \<noteq> n) (inflight s) \<rparr>"
  show ?thesis
  proof (cases a)
    case (Succeeds r)
    then show ?thesis
      using effects_deliver [of k "Fulfilled r" ?s1] by (simp add: answer_def Some entry)
  next
    case (FailsWith hasConfig st)
    then show ?thesis
      using effects_onRejected
              [of k "\<lparr> config = (if hasConfig then Some cfg else None), status = st \<rparr>" ?s1]
      by (simp add: answer_def Some entry)
  qed
qed

lemma effects_step: "\<exists>new. clientEffects (client_step e s) = clientEffects s @ new"
  by (cases e) (simp_all add: effects_answer call_def)

lemma sends_monotone: "sendsFor c (clientEffects s) \<le> sendsFor c (clientEffects (client_step e s))"
proof -
  obtain new where "clientEffects (client_step e s) = clientEffects s @ new"
    using effects_step by blast
  then show ?thesis by simp
qed

lemma sentOnce_step: "sentOnce c s \<Longrightarrow> sentOnce c (client_step e s)"
proof -
  assume a: "sentOnce c s"
  have m: "1 \<le> sendsFor c (clientEffects (client_step e s))"
    using a sends_monotone [of c s e] by (simp add: sentOnce_def)
  show ?thesis
  proof (cases e)
    case (Call cfg)
    then show ?thesis using a m by (auto simp: sentOnce_def client_inv_call potential_call)
  next
    case (Answer n r)
    have "potential c (answer n r s) \<le> potential c s"
      using a by (intro potential_answer) (simp add: sentOnce_def)
    then show ?thesis using a m Answer by (auto simp: sentOnce_def client_inv_answer)
  qed
qed

lemma sentOnce_run: "sentOnce c s \<Longrightarrow> sentOnce c (client_run es s)"
  by (induction es arbitrary: s) (simp_all add: sentOnce_step)

lemma sentOnce_exact: "sentOnce c s \<Longrightarrow> sendsFor c (clientEffects s) = 1"
  using sends_le_potential [of c s] by (simp add: sentOnce_def)

lemma sentOnce_call:
  assumes "bounded s" "\<not> retryable cfg"
  shows "sentOnce (callCount s) (call cfg s)"
proof -
  have p: "potential (callCount s) s = 0" using assms(1) by (simp add: bounded_def)
  have "potential (callCount s) (call cfg s) = 1" using assms(2) p by (simp add: potential_call)
  moreover have "1 \<le> sendsFor (callCount s) (clientEffects (call cfg s))"
    by (simp add: call_def)
  ultimately show ?thesis
    using assms(1) by (simp add: sentOnce_def bounded_def client_inv_call)
qed

lemma never_resent:
  assumes "\<not> retryable cfg"
  shows "sendsFor (callCount (client_run events initialClient))
           (clientEffects (client_run (events @ Call cfg # later) initialClient)) = 1"
proof -
  let ?s = "client_run events initialClient"
  have "bounded ?s" by (rule bounded_run [OF bounded_initial])
  then have "sentOnce (callCount ?s) (call cfg ?s)" using assms by (rule sentOnce_call)
  then have "sentOnce (callCount ?s) (client_run later (call cfg ?s))" by (rule sentOnce_run)
  then show ?thesis by (simp add: client_run_append sentOnce_exact)
qed

text \<open>
  Claim C2. In every run of the client the request of a caller is sent at most twice, the
  first time and one resend. A request whose configuration is already marked, or whose
  URL contains \<open>/auth/log-in\<close> or \<open>/auth/refresh\<close>, is sent exactly once, whatever is
  answered later. And when the answer to a request in flight carries no configuration,
  or a status other than 401, or a marked configuration, or one of these two URLs, the
  interceptor hands the failure to the caller and sends nothing.
\<close>

theorem request_resent_at_most_once:
  fixes events :: "'r client_event list"
  shows
  "sendsFor c (clientEffects (client_run events initialClient)) \<le> 2 \<and>
   (\<not> retryable cfg \<longrightarrow>
      sendsFor (callCount (client_run events initialClient))
        (clientEffects (client_run (events @ Call cfg # later) initialClient)) = 1) \<and>
   ((n, Caller d, cfg') \<in> set (inflight (client_run events initialClient)) \<and>
    (\<not> hasConfig \<or> st \<noteq> Some 401 \<or> retry' cfg' \<or>
     String_includes (case url cfg' of Some u \<Rightarrow> u | None \<Rightarrow> []) (js ''/auth/log-in'') \<or>
     String_includes (case url cfg' of Some u \<Rightarrow> u | None \<Rightarrow> []) (js ''/auth/refresh''))
    \<longrightarrow>
      answer n (FailsWith hasConfig st) (client_run events initialClient) =
        (client_run events initialClient)
          \<lparr> inflight := filter (\<lambda>x. fst x \<noteq> n) (inflight (client_run events initialClient)),
            clientEffects := clientEffects (client_run events initialClient) @
              [Replied d (Failed \<lparr> config = (if hasConfig then Some cfg' else None),
                                   status = st \<rparr>)] \<rparr>)"
proof (intro conjI impI)
  show "sendsFor c (clientEffects (client_run events initialClient)) \<le> 2"
    by (rule sends_at_most_two)
next
  assume "\<not> retryable cfg"
  then show "sendsFor (callCount (client_run events initialClient))
        (clientEffects (client_run (events @ Call cfg # later) initialClient)) = 1"
    by (rule never_resent)
next
  let ?s = "client_run events initialClient"
  assume a: "(n, Caller d, cfg') \<in> set (inflight ?s) \<and>
    (\<not> hasConfig \<or> st \<noteq> Some 401 \<or> retry' cfg' \<or>
     String_includes (case url cfg' of Some u \<Rightarrow> u | None \<Rightarrow> []) (js ''/auth/log-in'') \<or>
     String_includes (case url cfg' of Some u \<Rightarrow> u | None \<Rightarrow> []) (js ''/auth/refresh''))"
  then have "\<not> hasConfig \<or> st \<noteq> Some 401 \<or> \<not> retryable cfg'"
    by (auto simp: retryable_def)
  with a show "answer n (FailsWith hasConfig st) ?s =
        ?s \<lparr> inflight := filter (\<lambda>x. fst x \<noteq> n) (inflight ?s),
            clientEffects := clientEffects ?s @
              [Replied d (Failed \<lparr> config = (if hasConfig then Some cfg' else None),
                                   status = st \<rparr>)] \<rparr>"
    using answer_rethrown [OF client_inv_reachable, of n d cfg' events hasConfig st] by blast
qed

lemma answer_suspends:
  assumes inv: "client_inv s" and mem: "(n, Caller c, cfg) \<in> set (inflight s)"
    and r: "retryable cfg"
  shows "answer n (FailsWith True (Some 401)) s =
     (let s1 = refreshAccessToken (s \<lparr> inflight := filter (\<lambda>x. fst x \<noteq> n) (inflight s) \<rparr>)
      in s1 \<lparr> waiting := waiting s1 @ [(c, cfg \<lparr> retry' := True \<rparr>)] \<rparr>)"
proof -
  have "\<not> shouldRethrow \<lparr> config = (if True then Some cfg else None), status = Some 401 \<rparr>"
    using r by (simp only: shouldRethrow_iff) simp
  then show ?thesis
    by (simp add: answer_def find_inflight_entry [OF inv mem] onRejected_def Let_def)
qed

lemma answer_attaches:
  assumes inv: "client_inv s" and mem: "(n, Caller c, cfg) \<in> set (inflight s)"
    and r: "retryable cfg" and h: "inFlightRefreshPromise s = Some p"
  shows "answer n (FailsWith True (Some 401)) s =
     s \<lparr> inflight := filter (\<lambda>x. fst x \<noteq> n) (inflight s),
         waiting := waiting s @ [(c, cfg \<lparr> retry' := True \<rparr>)] \<rparr>"
  using h by (simp add: answer_suspends [OF inv mem r] refreshAccessToken_def Let_def)

lemma answer_starts_refresh:
  assumes inv: "client_inv s" and mem: "(n, Caller c, cfg) \<in> set (inflight s)"
    and r: "retryable cfg" and h: "inFlightRefreshPromise s = None"
  shows "answer n (FailsWith True (Some 401)) s =
     s \<lparr> inflight := filter (\<lambda>x. fst x \<noteq> n) (inflight s) @ [(sentCount s, RefreshChain, refreshConfig)],
         sentCount := Suc (sentCount s),
         clientEffects := clientEffects s @ [Sent (sentCount s) RefreshChain refreshConfig],
         inFlightRefreshPromise := Some (sentCount s),
         waiting := waiting s @ [(c, cfg \<lparr> retry' := True \<rparr>)] \<rparr>"
  using h by (simp add: answer_suspends [OF inv mem r] refreshAccessToken_def Let_def send_def)

lemma burstOf_Cons:
  "burstOf (x # rs) s \<longleftrightarrow>
     (fst x, Caller (fst (snd x)), snd (snd x)) \<in> set (inflight s) \<and> retryable (snd (snd x)) \<and>
     fst x \<notin> fst ` set rs \<and> burstOf rs s"
  by (auto simp: burstOf_def)

lemma burstOf_after:
  assumes "burstOf rs s" "n \<notin> fst ` set rs"
    and "inflight t = filter (\<lambda>x. fst x \<noteq> n) (inflight s) @ extra"
  shows "burstOf rs t"
  using assms by (auto simp: burstOf_def list_all_iff)

lemma burst_attached:
  assumes "client_inv s" "inFlightRefreshPromise s = Some p" "burstOf rs s"
  shows "inFlightRefreshPromise (client_run (map unauthorized rs) s) = Some p \<and>
         waiting (client_run (map unauthorized rs) s) = waiting s @ map suspended rs \<and>
         clientEffects (client_run (map unauthorized rs) s) = clientEffects s \<and>
         sentCount (client_run (map unauthorized rs) s) = sentCount s"
  using assms
proof (induction rs arbitrary: s)
  case Nil
  then show ?case by simp
next
  case (Cons x rs)
  obtain n c cfg where x: "x = (n, c, cfg)" by (cases x)
  have mem: "(n, Caller c, cfg) \<in> set (inflight s)" and r: "retryable cfg"
    and fresh: "n \<notin> fst ` set rs" and rest: "burstOf rs s"
    using Cons.prems(3) by (simp_all add: burstOf_Cons x)
  let ?t = "s \<lparr> inflight := filter (\<lambda>x. fst x \<noteq> n) (inflight s),
                waiting := waiting s @ [(c, cfg \<lparr> retry' := True \<rparr>)] \<rparr>"
  have step: "answer n (FailsWith True (Some 401)) s = ?t"
    using Cons.prems(1) mem r Cons.prems(2) by (rule answer_attaches)
  have inv: "client_inv ?t"
    using client_inv_answer [OF Cons.prems(1), of n "FailsWith True (Some 401)"] step by simp
  have h: "inFlightRefreshPromise ?t = Some p" using Cons.prems(2) by simp
  have b: "burstOf rs ?t" using rest fresh by (rule burstOf_after [where extra = "[]"]) simp
  from Cons.IH [OF inv h b] show ?case
    by (simp add: x unauthorized_def step suspended_def)
qed

lemma burst_from_idle:
  assumes inv: "client_inv s" and idle: "inFlightRefreshPromise s = None"
    and b: "burstOf (x # rs) s"
  shows "inFlightRefreshPromise (client_run (map unauthorized (x # rs)) s) = Some (sentCount s) \<and>
         waiting (client_run (map unauthorized (x # rs)) s) = map suspended (x # rs) \<and>
         clientEffects (client_run (map unauthorized (x # rs)) s) =
           clientEffects s @ [Sent (sentCount s) RefreshChain refreshConfig] \<and>
         sentCount (client_run (map unauthorized (x # rs)) s) = Suc (sentCount s)"
proof -
  obtain n c cfg where x: "x = (n, c, cfg)" by (cases x)
  have mem: "(n, Caller c, cfg) \<in> set (inflight s)" and r: "retryable cfg"
    and fresh: "n \<notin> fst ` set rs" and rest: "burstOf rs s"
    using b by (simp_all add: burstOf_Cons x)
  have w: "waiting s = []" using inv idle by (simp add: client_inv_def)
  let ?t = "s \<lparr> inflight := filter (\<lambda>x. fst x \<noteq> n) (inflight s) @ [(sentCount s, RefreshChain, refreshConfig)],
         sentCount := Suc (sentCount s),
         clientEffects := clientEffects s @ [Sent (sentCount s) RefreshChain refreshConfig],
         inFlightRefreshPromise := Some (sentCount s),
         waiting := waiting s @ [(c, cfg \<lparr> retry' := True \<rparr>)] \<rparr>"
  have step: "answer n (FailsWith True (Some 401)) s = ?t"
    using inv mem r idle by (rule answer_starts_refresh)
  have inv': "client_inv ?t"
    using client_inv_answer [OF inv, of n "FailsWith True (Some 401)"] step by simp
  have h: "inFlightRefreshPromise ?t = Some (sentCount s)" by simp
  have b': "burstOf rs ?t"
    using rest fresh
    by (rule burstOf_after [where extra = "[(sentCount s, RefreshChain, refreshConfig)]"]) simp
  from burst_attached [OF inv' h b'] show ?thesis
    by (simp add: x unauthorized_def step suspended_def w)
qed

lemma refresh_settles:
  assumes inv: "client_inv s" and h: "inFlightRefreshPromise s = Some p"
  shows "answer p (FailsWith hasConfig st) s =
     s \<lparr> inflight := filter (\<lambda>x. fst x \<noteq> p) (inflight s),
         inFlightRefreshPromise := None, waiting := [],
         clientEffects := clientEffects s @ ClearedHandle #
           map (\<lambda>w. Replied (fst w)
                  (Failed \<lparr> config = (if hasConfig then Some refreshConfig else None), status = st \<rparr>))
             (waiting s) \<rparr>"
    and "answer p (Succeeds r) s =
     resendAll (waiting s)
       (s \<lparr> inflight := filter (\<lambda>x. fst x \<noteq> p) (inflight s),
           inFlightRefreshPromise := None, waiting := [],
           clientEffects := clientEffects s @ [ClearedHandle] \<rparr>)"
proof -
  have "(p, RefreshChain, refreshConfig) \<in> set (refreshEntries s)"
    using inv h by (simp add: client_inv_alt)
  then have mem: "(p, RefreshChain, refreshConfig) \<in> set (inflight s)"
    by (simp add: refreshEntries_def)
  note f = find_inflight_entry [OF inv mem]
  show "answer p (FailsWith hasConfig st) s =
     s \<lparr> inflight := filter (\<lambda>x. fst x \<noteq> p) (inflight s),
         inFlightRefreshPromise := None, waiting := [],
         clientEffects := clientEffects s @ ClearedHandle #
           map (\<lambda>w. Replied (fst w)
                  (Failed \<lparr> config = (if hasConfig then Some refreshConfig else None), status = st \<rparr>))
             (waiting s) \<rparr>"
    using refresh_always_rethrows [of hasConfig st]
    by (simp add: answer_def f onRejected_def deliver_def Let_def)
  show "answer p (Succeeds r) s =
     resendAll (waiting s)
       (s \<lparr> inflight := filter (\<lambda>x. fst x \<noteq> p) (inflight s),
           inFlightRefreshPromise := None, waiting := [],
           clientEffects := clientEffects s @ [ClearedHandle] \<rparr>)"
    by (simp add: answer_def f deliver_def Let_def)
qed

lemma resendAll_effects:
  "clientEffects (resendAll ws s) =
     clientEffects s @
     map (\<lambda>(i, w). Sent i (Caller (fst w)) (snd w)) (zip [sentCount s ..< sentCount s + length ws] ws)"
proof (induction ws arbitrary: s)
  case Nil
  then show ?case by simp
next
  case (Cons w ws)
  have "[sentCount s ..< sentCount s + length (w # ws)] =
        sentCount s # [Suc (sentCount s) ..< Suc (sentCount s) + length ws]"
    by (simp add: upt_rec)
  then show ?case using Cons [of "send (Caller (fst w)) (snd w) s"] by simp
qed

text \<open>The traces of the unit tests, evaluated.\<close>

lemmas client_eval =
  client_run_def call_def send_def answer_def onRejected_def deliver_def refreshAccessToken_def
  resendAll_def shouldRethrow_def initialClient_def Let_def js_def refreshConfig_def
  protectedConfig_def meConfig_def loginConfig_def

lemma retriedOnce_state:
  "client_run retriedOnce initialClient =
     \<lparr> inFlightRefreshPromise = None,
       inflight = [(2, Caller 0, protectedConfig \<lparr> retry' := True \<rparr>)],
       waiting = [], sentCount = 3, callCount = 1,
       clientEffects =
         [Sent 0 (Caller 0) protectedConfig, Sent 1 RefreshChain refreshConfig, ClearedHandle,
          Sent 2 (Caller 0) (protectedConfig \<lparr> retry' := True \<rparr>)] \<rparr>"
  by (simp add: retriedOnce_def client_eval)

lemma twoInFlight_state:
  "client_run twoInFlight initialClient =
     \<lparr> inFlightRefreshPromise = None,
       inflight = [(0, Caller 0, protectedConfig), (1, Caller 1, meConfig)],
       waiting = [], sentCount = 2, callCount = 2,
       clientEffects = [Sent 0 (Caller 0) protectedConfig, Sent 1 (Caller 1) meConfig] \<rparr>"
  by (simp add: twoInFlight_def client_eval)

lemma refreshFails_effects:
  "clientEffects (client_run refreshFails initialClient) =
     [Sent 0 (Caller 0) protectedConfig, Sent 1 RefreshChain refreshConfig, ClearedHandle,
      Replied 0 (Failed \<lparr> config = Some refreshConfig, status = Some 401 \<rparr>)]"
  by (simp add: refreshFails_def client_eval)

lemma example_retryable:
  "retryable protectedConfig" "retryable meConfig" "\<not> retryable loginConfig"
  by (simp_all add: retryable_def protectedConfig_def meConfig_def loginConfig_def js_def)

theorem request_resent_at_most_once_witness:
  "sendsFor 0 (clientEffects (client_run retriedOnce initialClient)) = 2 \<and>
   \<not> retryable loginConfig \<and>
   sendsFor 0 (clientEffects
     (client_run [Call loginConfig, Answer 0 (FailsWith True (Some 401))]
        (initialClient :: unit Client))) = 1 \<and>
   (2, Caller 0, protectedConfig \<lparr> retry' := True \<rparr>)
     \<in> set (inflight (client_run retriedOnce initialClient)) \<and>
   clientEffects (answer 2 (FailsWith True (Some 401)) (client_run retriedOnce initialClient)) =
     clientEffects (client_run retriedOnce initialClient) @
       [Replied 0 (Failed \<lparr> config = Some (protectedConfig \<lparr> retry' := True \<rparr>),
                            status = Some 401 \<rparr>)]"
proof -
  let ?s = "client_run retriedOnce initialClient"
  let ?marked = "protectedConfig \<lparr> retry' := True \<rparr>"
  have two: "sendsFor 0 (clientEffects ?s) = 2"
    by (simp add: retriedOnce_state sendsFor_def isSendFor_def)
  have mem: "(2, Caller 0, ?marked) \<in> set (inflight ?s)" by (simp add: retriedOnce_state)
  have m: "retry' ?marked" by simp
  note t = request_resent_at_most_once
             [of 0 "[] :: unit client_event list" loginConfig
                 "[Answer 0 (FailsWith True (Some 401))]" 2 0 ?marked True "Some 401"]
  note u = request_resent_at_most_once
             [of 0 retriedOnce loginConfig "[]" 2 0 ?marked True "Some 401"]
  have once: "sendsFor 0 (clientEffects
     (client_run [Call loginConfig, Answer 0 (FailsWith True (Some 401))]
        (initialClient :: unit Client))) = 1"
    using t example_retryable(3) by (simp add: initialClient_def)
  have last: "clientEffects (answer 2 (FailsWith True (Some 401)) ?s) =
     clientEffects ?s @ [Replied 0 (Failed \<lparr> config = Some ?marked, status = Some 401 \<rparr>)]"
    using u mem m by simp
  show ?thesis using two example_retryable(3) once mem last by (intro conjI)
qed

text \<open>
  Claim C3, as the code has it. In every reachable state with a refresh pending, when the
  refresh request fails, the handle is cleared, nothing is sent, and every interceptor
  run that waits for the refresh hands its caller the failure of the refresh request:
  the error carries the configuration of \<open>/auth/refresh\<close> and the status of that answer,
  not the error that entered the interceptor. A successful refresh clears the handle as
  well.
\<close>

theorem refresh_failure_reaches_waiters:
  fixes events :: "'r client_event list"
  shows
  "inFlightRefreshPromise (client_run events initialClient) = Some p \<longrightarrow>
     answer p (FailsWith hasConfig st) (client_run events initialClient) =
       (client_run events initialClient)
         \<lparr> inflight := filter (\<lambda>x. fst x \<noteq> p) (inflight (client_run events initialClient)),
           inFlightRefreshPromise := None, waiting := [],
           clientEffects := clientEffects (client_run events initialClient) @ ClearedHandle #
             map (\<lambda>w. Replied (fst w)
                    (Failed \<lparr> config = (if hasConfig then Some refreshConfig else None),
                              status = st \<rparr>))
               (waiting (client_run events initialClient)) \<rparr> \<and>
     inFlightRefreshPromise (answer p (Succeeds r) (client_run events initialClient)) = None"
proof
  let ?s = "client_run events initialClient"
  assume h: "inFlightRefreshPromise ?s = Some p"
  note rs = refresh_settles [OF client_inv_reachable h]
  show "answer p (FailsWith hasConfig st) ?s =
       ?s \<lparr> inflight := filter (\<lambda>x. fst x \<noteq> p) (inflight ?s),
           inFlightRefreshPromise := None, waiting := [],
           clientEffects := clientEffects ?s @ ClearedHandle #
             map (\<lambda>w. Replied (fst w)
                    (Failed \<lparr> config = (if hasConfig then Some refreshConfig else None),
                              status = st \<rparr>))
               (waiting ?s) \<rparr> \<and>
     inFlightRefreshPromise (answer p (Succeeds r) ?s) = None"
    by (simp add: rs)
qed

lemma refreshPending_state:
  "client_run [Call protectedConfig, Answer 0 (FailsWith True (Some 401))] (initialClient :: unit Client) =
     \<lparr> inFlightRefreshPromise = Some 1,
       inflight = [(1, RefreshChain, refreshConfig)],
       waiting = [(0, protectedConfig \<lparr> retry' := True \<rparr>)], sentCount = 2, callCount = 1,
       clientEffects = [Sent 0 (Caller 0) protectedConfig, Sent 1 RefreshChain refreshConfig] \<rparr>"
  by (simp add: client_eval)

theorem refresh_failure_reaches_waiters_witness:
  "inFlightRefreshPromise
     (client_run [Call protectedConfig, Answer 0 (FailsWith True (Some 401))]
        (initialClient :: unit Client)) = Some 1 \<and>
   clientEffects
     (answer 1 (FailsWith True (Some 401))
        (client_run [Call protectedConfig, Answer 0 (FailsWith True (Some 401))]
           (initialClient :: unit Client))) =
     [Sent 0 (Caller 0) protectedConfig, Sent 1 RefreshChain refreshConfig, ClearedHandle,
      Replied 0 (Failed \<lparr> config = Some refreshConfig, status = Some 401 \<rparr>)]"
proof -
  note t = refresh_failure_reaches_waiters
             [of "[Call protectedConfig, Answer 0 (FailsWith True (Some 401))] :: unit client_event list"
                 1 True "Some 401" "()", unfolded refreshPending_state]
  show ?thesis unfolding refreshPending_state using t by simp
qed

text \<open>
  The trace of a failing refresh: the caller of \<open>/protected\<close> is handed the 401 of
  \<open>/auth/refresh\<close>, which is neither the error of its own request nor that error with
  the configuration marked.
\<close>

theorem refresh_failure_original_error_counterexample:
  "clientEffects (client_run refreshFails initialClient) =
     [Sent 0 (Caller 0) protectedConfig, Sent 1 RefreshChain refreshConfig, ClearedHandle,
      Replied 0 (Failed \<lparr> config = Some refreshConfig, status = Some 401 \<rparr>)] \<and>
   \<lparr> config = Some refreshConfig, status = Some 401 \<rparr> \<noteq>
     \<lparr> config = Some protectedConfig, status = Some 401 \<rparr> \<and>
   \<lparr> config = Some refreshConfig, status = Some 401 \<rparr> \<noteq>
     \<lparr> config = Some (protectedConfig \<lparr> retry' := True \<rparr>), status = Some 401 \<rparr>"
  by (simp add: refreshFails_effects) (simp add: refreshConfig_def protectedConfig_def js_def)

subsection \<open>One refresh at a time\<close>

lemma refreshUser_burst_settles:
  fixes s :: "('u, 'e) AuthProvider" and result :: "'e + 'u"
  assumes inv: "auth_inv s" and idle: "inFlightRefreshRef s = None"
  shows "effects (auth_run (map (\<lambda>(c, options). RefreshUser c options) ((c0, o0) # calls)) s) =
           effects s @ [SentMe (sentMe s)]"
    and "pendingMe (auth_run (map (\<lambda>(c, options). RefreshUser c options) ((c0, o0) # calls)) s) =
           [sentMe s]"
    and "inFlightRefreshRef
           (auth_run (map (\<lambda>(c, options). RefreshUser c options) ((c0, o0) # calls)) s) =
           Some (sentMe s)"
    and "effects (settleMe (sentMe s) result
           (auth_run (map (\<lambda>(c, options). RefreshUser c options) ((c0, o0) # calls)) s)) =
           effects s @ [SentMe (sentMe s)] @
           [SetUser (case result of Inr u \<Rightarrow> Some u | Inl e \<Rightarrow> None), ClearedRef] @
           map (\<lambda>(c, options). Settled c (callerSettlement options result)) ((c0, o0) # calls)"
    and "inFlightRefreshRef (settleMe (sentMe s) result
           (auth_run (map (\<lambda>(c, options). RefreshUser c options) ((c0, o0) # calls)) s)) = None"
    and "pendingMe (settleMe (sentMe s) result
           (auth_run (map (\<lambda>(c, options). RefreshUser c options) ((c0, o0) # calls)) s)) = []"
    and "effects (refreshUser c1 o1 (settleMe (sentMe s) result
           (auth_run (map (\<lambda>(c, options). RefreshUser c options) ((c0, o0) # calls)) s))) =
         effects (settleMe (sentMe s) result
           (auth_run (map (\<lambda>(c, options). RefreshUser c options) ((c0, o0) # calls)) s)) @
         [SentMe (Suc (sentMe s))]"
proof -
  define s1 where "s1 = auth_run (map (\<lambda>(c, options). RefreshUser c options) ((c0, o0) # calls)) s"
  define s2 where "s2 = settleMe (sentMe s) result s1"
  have p: "pendingMe s = []" and h: "handlers s = []"
    using inv idle by (simp_all add: auth_inv_def)
  note b = refreshUser_burst [OF idle, of c0 o0 calls, folded s1_def]
  have e1: "effects s1 = effects s @ [SentMe (sentMe s)]" by (simp only: b) simp
  have p1: "pendingMe s1 = [sentMe s]" by (simp only: b) (simp add: p)
  have r1: "inFlightRefreshRef s1 = Some (sentMe s)" by (simp only: b) simp
  have h1: "handlers s1 = map (\<lambda>(c, options). (sentMe s, c, options)) ((c0, o0) # calls)"
    by (simp only: b) (simp add: h)
  have n1: "sentMe s1 = Suc (sentMe s)" by (simp only: b) simp
  have inv1: "auth_inv s1" unfolding s1_def using inv by (rule auth_inv_run)
  note st = settleMe_pending [OF inv1 r1, of result, folded s2_def]
  have e2: "effects s2 = effects s @ [SentMe (sentMe s)] @
           [SetUser (case result of Inr u \<Rightarrow> Some u | Inl e \<Rightarrow> None), ClearedRef] @
           map (\<lambda>(c, options). Settled c (callerSettlement options result)) ((c0, o0) # calls)"
    by (simp only: st) (simp add: e1 h1 case_prod_beta comp_def)
  have r2: "inFlightRefreshRef s2 = None" by (simp only: st) simp
  have p2: "pendingMe s2 = []" by (simp only: st) simp
  have n2: "sentMe s2 = Suc (sentMe s)" by (simp only: st) (simp add: n1)
  have e3: "effects (refreshUser c1 o1 s2) = effects s2 @ [SentMe (Suc (sentMe s))]"
    using r2 n2 by (simp add: refreshUser_def Let_def)
  show "effects (auth_run (map (\<lambda>(c, options). RefreshUser c options) ((c0, o0) # calls)) s) =
           effects s @ [SentMe (sentMe s)]"
    using e1 unfolding s1_def .
  show "pendingMe (auth_run (map (\<lambda>(c, options). RefreshUser c options) ((c0, o0) # calls)) s) =
           [sentMe s]"
    using p1 unfolding s1_def .
  show "inFlightRefreshRef
           (auth_run (map (\<lambda>(c, options). RefreshUser c options) ((c0, o0) # calls)) s) =
           Some (sentMe s)"
    using r1 unfolding s1_def .
  show "effects (settleMe (sentMe s) result
           (auth_run (map (\<lambda>(c, options). RefreshUser c options) ((c0, o0) # calls)) s)) =
           effects s @ [SentMe (sentMe s)] @
           [SetUser (case result of Inr u \<Rightarrow> Some u | Inl e \<Rightarrow> None), ClearedRef] @
           map (\<lambda>(c, options). Settled c (callerSettlement options result)) ((c0, o0) # calls)"
    using e2 unfolding s2_def s1_def .
  show "inFlightRefreshRef (settleMe (sentMe s) result
           (auth_run (map (\<lambda>(c, options). RefreshUser c options) ((c0, o0) # calls)) s)) = None"
    using r2 unfolding s2_def s1_def .
  show "pendingMe (settleMe (sentMe s) result
           (auth_run (map (\<lambda>(c, options). RefreshUser c options) ((c0, o0) # calls)) s)) = []"
    using p2 unfolding s2_def s1_def .
  show "effects (refreshUser c1 o1 (settleMe (sentMe s) result
           (auth_run (map (\<lambda>(c, options). RefreshUser c options) ((c0, o0) # calls)) s))) =
         effects (settleMe (sentMe s) result
           (auth_run (map (\<lambda>(c, options). RefreshUser c options) ((c0, o0) # calls)) s)) @
         [SentMe (Suc (sentMe s))]"
    using e3 unfolding s2_def s1_def .
qed

lemma refresh_burst_settles:
  fixes s :: "'r Client"
  assumes inv: "client_inv s" and idle: "inFlightRefreshPromise s = None"
    and b: "burstOf (x # rs) s"
  shows "clientEffects (client_run (map unauthorized (x # rs)) s) =
           clientEffects s @ [Sent (sentCount s) RefreshChain refreshConfig]"
    and "inFlightRefreshPromise (client_run (map unauthorized (x # rs)) s) = Some (sentCount s)"
    and "refreshesInFlight (client_run (map unauthorized (x # rs)) s) = 1"
    and "clientEffects (answer (sentCount s) (FailsWith hasConfig st)
           (client_run (map unauthorized (x # rs)) s)) =
         clientEffects s @ [Sent (sentCount s) RefreshChain refreshConfig, ClearedHandle] @
         map (\<lambda>w. Replied (fst w)
                (Failed \<lparr> config = (if hasConfig then Some refreshConfig else None),
                          status = st \<rparr>))
           (map suspended (x # rs))"
    and "inFlightRefreshPromise (answer (sentCount s) (FailsWith hasConfig st)
           (client_run (map unauthorized (x # rs)) s)) = None"
    and "clientEffects (answer (sentCount s) (Succeeds r)
           (client_run (map unauthorized (x # rs)) s)) =
         clientEffects s @ [Sent (sentCount s) RefreshChain refreshConfig, ClearedHandle] @
         map (\<lambda>(i, w). Sent i (Caller (fst w)) (snd w))
           (zip [Suc (sentCount s) ..< Suc (sentCount s) + length (x # rs)]
                (map suspended (x # rs)))"
    and "inFlightRefreshPromise (answer (sentCount s) (Succeeds r)
           (client_run (map unauthorized (x # rs)) s)) = None"
proof -
  define t where "t = client_run (map unauthorized (x # rs)) s"
  note bi = burst_from_idle [OF inv idle b, folded t_def]
  have e: "clientEffects t = clientEffects s @ [Sent (sentCount s) RefreshChain refreshConfig]"
    by (rule bi [THEN conjunct2, THEN conjunct2, THEN conjunct1])
  have h: "inFlightRefreshPromise t = Some (sentCount s)" by (rule bi [THEN conjunct1])
  have w: "waiting t = map suspended (x # rs)" by (rule bi [THEN conjunct2, THEN conjunct1])
  have n: "sentCount t = Suc (sentCount s)"
    by (rule bi [THEN conjunct2, THEN conjunct2, THEN conjunct2])
  have invt: "client_inv t" unfolding t_def using inv by (rule client_inv_run)
  have one: "refreshesInFlight t = 1"
    using invt h by (simp add: client_inv_def refreshesInFlight_def)
  note f = refresh_settles(1) [OF invt h, of hasConfig st]
  note g = refresh_settles(2) [OF invt h, of r]
  have ef: "clientEffects (answer (sentCount s) (FailsWith hasConfig st) t) =
         clientEffects s @ [Sent (sentCount s) RefreshChain refreshConfig, ClearedHandle] @
         map (\<lambda>w. Replied (fst w)
                (Failed \<lparr> config = (if hasConfig then Some refreshConfig else None),
                          status = st \<rparr>))
           (map suspended (x # rs))"
    by (simp only: f) (simp add: e w)
  have hf: "inFlightRefreshPromise (answer (sentCount s) (FailsWith hasConfig st) t) = None"
    by (simp only: f) simp
  have es: "clientEffects (answer (sentCount s) (Succeeds r) t) =
         clientEffects s @ [Sent (sentCount s) RefreshChain refreshConfig, ClearedHandle] @
         map (\<lambda>(i, w). Sent i (Caller (fst w)) (snd w))
           (zip [Suc (sentCount s) ..< Suc (sentCount s) + length (x # rs)]
                (map suspended (x # rs)))"
    by (simp only: g resendAll_effects) (simp add: e w n)
  have hs: "inFlightRefreshPromise (answer (sentCount s) (Succeeds r) t) = None"
    by (simp only: g) simp
  show "clientEffects (client_run (map unauthorized (x # rs)) s) =
           clientEffects s @ [Sent (sentCount s) RefreshChain refreshConfig]"
    using e unfolding t_def .
  show "inFlightRefreshPromise (client_run (map unauthorized (x # rs)) s) = Some (sentCount s)"
    using h unfolding t_def .
  show "refreshesInFlight (client_run (map unauthorized (x # rs)) s) = 1"
    using one unfolding t_def .
  show "clientEffects (answer (sentCount s) (FailsWith hasConfig st)
           (client_run (map unauthorized (x # rs)) s)) =
         clientEffects s @ [Sent (sentCount s) RefreshChain refreshConfig, ClearedHandle] @
         map (\<lambda>w. Replied (fst w)
                (Failed \<lparr> config = (if hasConfig then Some refreshConfig else None),
                          status = st \<rparr>))
           (map suspended (x # rs))"
    using ef unfolding t_def .
  show "inFlightRefreshPromise (answer (sentCount s) (FailsWith hasConfig st)
           (client_run (map unauthorized (x # rs)) s)) = None"
    using hf unfolding t_def .
  show "clientEffects (answer (sentCount s) (Succeeds r)
           (client_run (map unauthorized (x # rs)) s)) =
         clientEffects s @ [Sent (sentCount s) RefreshChain refreshConfig, ClearedHandle] @
         map (\<lambda>(i, w). Sent i (Caller (fst w)) (snd w))
           (zip [Suc (sentCount s) ..< Suc (sentCount s) + length (x # rs)]
                (map suspended (x # rs)))"
    using es unfolding t_def .
  show "inFlightRefreshPromise (answer (sentCount s) (Succeeds r)
           (client_run (map unauthorized (x # rs)) s)) = None"
    using hs unfolding t_def .
qed

text \<open>
  Claim C1. In every reachable state of the session provider at most one request is
  pending. From an idle state, a burst of one or more \<open>refreshUser\<close> calls sends exactly
  one request; when it settles, with a user or with an error, the reference is cleared
  and the promise of every caller of the burst settles from that one result, in call
  order; a later call then sends a fresh request. In every reachable state of the HTTP
  client at most one refresh request is in flight. From an idle state, a burst of one
  or more 401 answers to retryable requests in flight sends exactly one refresh request;
  when it fails, the handle is cleared and every caller of the burst is handed that
  failure; when it succeeds, the handle is cleared and every request of the burst is
  resent. Every state after a settlement is again reachable and idle, so a later expiry
  starts a fresh refresh.
\<close>

theorem refresh_is_single_flight:
  fixes events :: "('u, 'e) auth_event list" and result :: "'e + 'u"
    and requests :: "'r client_event list"
  shows
  "length (pendingMe (auth_run events initialAuthProvider)) \<le> 1 \<and>
   (inFlightRefreshRef (auth_run events initialAuthProvider) = None \<longrightarrow>
      (let s = auth_run events initialAuthProvider;
           s1 = auth_run (map (\<lambda>(c, options). RefreshUser c options) ((caller, given) # others)) s;
           s2 = settleMe (sentMe s) result s1
       in effects s1 = effects s @ [SentMe (sentMe s)] \<and>
          pendingMe s1 = [sentMe s] \<and>
          inFlightRefreshRef s1 = Some (sentMe s) \<and>
          effects s2 = effects s @ [SentMe (sentMe s)] @
            [SetUser (case result of Inr u \<Rightarrow> Some u | Inl e \<Rightarrow> None), ClearedRef] @
            map (\<lambda>(c, options). Settled c (callerSettlement options result)) ((caller, given) # others) \<and>
          inFlightRefreshRef s2 = None \<and>
          pendingMe s2 = [] \<and>
          effects (refreshUser later laterGiven s2) = effects s2 @ [SentMe (Suc (sentMe s))])) \<and>
   refreshesInFlight (client_run requests initialClient) \<le> 1 \<and>
   (inFlightRefreshPromise (client_run requests initialClient) = None \<and>
    burstOf (x # rs) (client_run requests initialClient) \<longrightarrow>
      (let t = client_run requests initialClient;
           t1 = client_run (map unauthorized (x # rs)) t
       in clientEffects t1 = clientEffects t @ [Sent (sentCount t) RefreshChain refreshConfig] \<and>
          inFlightRefreshPromise t1 = Some (sentCount t) \<and>
          refreshesInFlight t1 = 1 \<and>
          clientEffects (answer (sentCount t) (FailsWith hasConfig st) t1) =
            clientEffects t @ [Sent (sentCount t) RefreshChain refreshConfig, ClearedHandle] @
            map (\<lambda>w. Replied (fst w)
                   (Failed \<lparr> config = (if hasConfig then Some refreshConfig else None),
                             status = st \<rparr>))
              (map suspended (x # rs)) \<and>
          inFlightRefreshPromise (answer (sentCount t) (FailsWith hasConfig st) t1) = None \<and>
          clientEffects (answer (sentCount t) (Succeeds r) t1) =
            clientEffects t @ [Sent (sentCount t) RefreshChain refreshConfig, ClearedHandle] @
            map (\<lambda>(i, w). Sent i (Caller (fst w)) (snd w))
              (zip [Suc (sentCount t) ..< Suc (sentCount t) + length (x # rs)]
                   (map suspended (x # rs))) \<and>
          inFlightRefreshPromise (answer (sentCount t) (Succeeds r) t1) = None))"
proof (intro conjI impI)
  show "length (pendingMe (auth_run events initialAuthProvider)) \<le> 1"
    by (rule auth_single_flight [OF auth_inv_reachable, THEN conjunct1])
next
  assume idle: "inFlightRefreshRef (auth_run events initialAuthProvider) = None"
  note a = refreshUser_burst_settles [OF auth_inv_reachable idle]
  show "let s = auth_run events initialAuthProvider;
           s1 = auth_run (map (\<lambda>(c, options). RefreshUser c options) ((caller, given) # others)) s;
           s2 = settleMe (sentMe s) result s1
       in effects s1 = effects s @ [SentMe (sentMe s)] \<and>
          pendingMe s1 = [sentMe s] \<and>
          inFlightRefreshRef s1 = Some (sentMe s) \<and>
          effects s2 = effects s @ [SentMe (sentMe s)] @
            [SetUser (case result of Inr u \<Rightarrow> Some u | Inl e \<Rightarrow> None), ClearedRef] @
            map (\<lambda>(c, options). Settled c (callerSettlement options result)) ((caller, given) # others) \<and>
          inFlightRefreshRef s2 = None \<and>
          pendingMe s2 = [] \<and>
          effects (refreshUser later laterGiven s2) = effects s2 @ [SentMe (Suc (sentMe s))]"
    unfolding Let_def by (intro conjI a)
next
  show "refreshesInFlight (client_run requests initialClient) \<le> 1"
    by (rule client_single_flight [OF client_inv_reachable, THEN conjunct1])
next
  assume h: "inFlightRefreshPromise (client_run requests initialClient) = None \<and>
    burstOf (x # rs) (client_run requests initialClient)"
  then have idle: "inFlightRefreshPromise (client_run requests initialClient) = None"
    and b: "burstOf (x # rs) (client_run requests initialClient)" by simp_all
  note c = refresh_burst_settles [OF client_inv_reachable idle b]
  show "let t = client_run requests initialClient;
           t1 = client_run (map unauthorized (x # rs)) t
       in clientEffects t1 = clientEffects t @ [Sent (sentCount t) RefreshChain refreshConfig] \<and>
          inFlightRefreshPromise t1 = Some (sentCount t) \<and>
          refreshesInFlight t1 = 1 \<and>
          clientEffects (answer (sentCount t) (FailsWith hasConfig st) t1) =
            clientEffects t @ [Sent (sentCount t) RefreshChain refreshConfig, ClearedHandle] @
            map (\<lambda>w. Replied (fst w)
                   (Failed \<lparr> config = (if hasConfig then Some refreshConfig else None),
                             status = st \<rparr>))
              (map suspended (x # rs)) \<and>
          inFlightRefreshPromise (answer (sentCount t) (FailsWith hasConfig st) t1) = None \<and>
          clientEffects (answer (sentCount t) (Succeeds r) t1) =
            clientEffects t @ [Sent (sentCount t) RefreshChain refreshConfig, ClearedHandle] @
            map (\<lambda>(i, w). Sent i (Caller (fst w)) (snd w))
              (zip [Suc (sentCount t) ..< Suc (sentCount t) + length (x # rs)]
                   (map suspended (x # rs))) \<and>
          inFlightRefreshPromise (answer (sentCount t) (Succeeds r) t1) = None"
    unfolding Let_def by (intro conjI c)
qed

theorem refresh_is_single_flight_witness:
  "inFlightRefreshRef (auth_run [] (initialAuthProvider :: (jsstring, error) AuthProvider)) = None \<and>
   effects (auth_run twoCallers initialAuthProvider) = [SentMe 0] \<and>
   pendingMe (auth_run twoCallers initialAuthProvider) = [0] \<and>
   effects (settleMe 0 (Inl (Error ''401'')) (auth_run twoCallers initialAuthProvider)) =
     [SentMe 0, SetUser None, ClearedRef, Settled 0 Resolved, Settled 1 (Rejected (Error ''401''))] \<and>
   inFlightRefreshRef (settleMe 0 (Inl (Error ''401'')) (auth_run twoCallers initialAuthProvider)) =
     None \<and>
   inFlightRefreshPromise (client_run twoInFlight initialClient) = None \<and>
   burstOf [(0, 0, protectedConfig), (1, 1, meConfig)] (client_run twoInFlight initialClient) \<and>
   clientEffects
     (client_run (map unauthorized [(0, 0, protectedConfig), (1, 1, meConfig)])
        (client_run twoInFlight initialClient)) =
     [Sent 0 (Caller 0) protectedConfig, Sent 1 (Caller 1) meConfig,
      Sent 2 RefreshChain refreshConfig] \<and>
   clientEffects
     (answer 2 (Succeeds ())
        (client_run (map unauthorized [(0, 0, protectedConfig), (1, 1, meConfig)])
           (client_run twoInFlight initialClient))) =
     [Sent 0 (Caller 0) protectedConfig, Sent 1 (Caller 1) meConfig,
      Sent 2 RefreshChain refreshConfig, ClearedHandle,
      Sent 3 (Caller 0) (protectedConfig \<lparr> retry' := True \<rparr>),
      Sent 4 (Caller 1) (meConfig \<lparr> retry' := True \<rparr>)] \<and>
   inFlightRefreshPromise
     (answer 2 (Succeeds ())
        (client_run (map unauthorized [(0, 0, protectedConfig), (1, 1, meConfig)])
           (client_run twoInFlight initialClient))) = None"
proof -
  have idle: "inFlightRefreshRef (auth_run [] (initialAuthProvider :: (jsstring, error) AuthProvider)) = None"
    by (simp add: initialAuthProvider_def)
  have two: "twoCallers =
      map (\<lambda>(c, options). RefreshUser c options) [(0, quietOptions), (1, throwingOptions)]"
    by (simp add: twoCallers_def)
  have cidle: "inFlightRefreshPromise (client_run twoInFlight initialClient) = None"
    by (simp add: twoInFlight_state)
  have burst: "burstOf [(0, 0, protectedConfig), (1, 1, meConfig)] (client_run twoInFlight initialClient)"
    by (simp add: twoInFlight_state burstOf_def example_retryable)
  have n: "sentCount (client_run twoInFlight initialClient) = 2"
    and e: "clientEffects (client_run twoInFlight initialClient) =
              [Sent 0 (Caller 0) protectedConfig, Sent 1 (Caller 1) meConfig]"
    by (simp_all add: twoInFlight_state)
  have m: "sentMe (initialAuthProvider :: (jsstring, error) AuthProvider) = 0"
    "effects (initialAuthProvider :: (jsstring, error) AuthProvider) = []"
    by (simp_all add: initialAuthProvider_def)
  have q: "callerSettlement quietOptions (Inl (Error ''401'') :: error + jsstring) = Resolved"
    "callerSettlement throwingOptions (Inl (Error ''401'') :: error + jsstring) = Rejected (Error ''401'')"
    by (simp_all add: callerSettlement_def throwOnError_set_def quietOptions_def throwingOptions_def)
  note t = refresh_is_single_flight
    [where events = "[] :: (jsstring, error) auth_event list" and caller = 0 and given = quietOptions
       and others = "[(1, throwingOptions)]" and result = "Inl (Error ''401'')"
       and later = 0 and laterGiven = quietOptions
       and requests = twoInFlight and x = "(0, 0, protectedConfig)" and rs = "[(1, 1, meConfig)]"
       and hasConfig = True and st = "Some 401" and r = "()",
     unfolded Let_def, folded two]
  have a: "effects (auth_run twoCallers initialAuthProvider) = [SentMe 0]"
    "pendingMe (auth_run twoCallers initialAuthProvider) = [0]"
    "effects (settleMe 0 (Inl (Error ''401'')) (auth_run twoCallers initialAuthProvider)) =
     [SentMe 0, SetUser None, ClearedRef, Settled 0 Resolved, Settled 1 (Rejected (Error ''401''))]"
    "inFlightRefreshRef (settleMe 0 (Inl (Error ''401'')) (auth_run twoCallers initialAuthProvider)) =
     None"
    using t idle by (simp_all add: m q)
  have c: "clientEffects
     (client_run (map unauthorized [(0, 0, protectedConfig), (1, 1, meConfig)])
        (client_run twoInFlight initialClient)) =
     [Sent 0 (Caller 0) protectedConfig, Sent 1 (Caller 1) meConfig,
      Sent 2 RefreshChain refreshConfig]"
    "clientEffects
     (answer 2 (Succeeds ())
        (client_run (map unauthorized [(0, 0, protectedConfig), (1, 1, meConfig)])
           (client_run twoInFlight initialClient))) =
     [Sent 0 (Caller 0) protectedConfig, Sent 1 (Caller 1) meConfig,
      Sent 2 RefreshChain refreshConfig, ClearedHandle,
      Sent 3 (Caller 0) (protectedConfig \<lparr> retry' := True \<rparr>),
      Sent 4 (Caller 1) (meConfig \<lparr> retry' := True \<rparr>)]"
    "inFlightRefreshPromise
     (answer 2 (Succeeds ())
        (client_run (map unauthorized [(0, 0, protectedConfig), (1, 1, meConfig)])
           (client_run twoInFlight initialClient))) = None"
    using t [THEN conjunct2, THEN conjunct2, THEN conjunct2, THEN mp, OF conjI [OF cidle burst]]
    by (simp_all add: n e suspended_def upt_rec)
  show ?thesis using idle a cidle burst c by (intro conjI)
qed

end
